theory Spec2Isabelle
  imports Main "HOL-Library.Sublist" "HOL-Library.AList"
begin

section \<open>The self-update operator of BlendLuxCore (operators/update.py)\<close>

text \<open>
  The operator has two entry points. \<open>invoke\<close> fetches the list of releases from
  the remote feed, picks for every release the asset built for the running platform and
  fills the module-level ordered dictionary \<open>releases\<close>. \<open>execute\<close> downloads the
  selected release and swaps it for the running installation on disk, keeping a backup
  that is restored when the extraction fails. \<open>release_items_callback\<close> turns the
  dictionary into the entries of the drop-down list.

  Everything the operator obtains from its surroundings (the HTTP responses, the host
  platform, the name of the fresh temporary directory, the behaviour of the downloaded
  archive on extraction, the files on disk) is an explicit argument of the model, and
  everything it changes (the dictionary, the files, the messages reported to the user)
  is part of the returned value. Lines written to the console with \<open>print\<close> are not
  modelled.
\<close>

subsection \<open>Python strings\<close>

text \<open>
  \<open>str.replace(old, new)\<close> replaces every occurrence of \<open>old\<close>, scanning from the
  left and continuing after each replaced occurrence. For an empty \<open>old\<close> Python puts
  \<open>new\<close> before every character and at the end.
\<close>

function replace :: "string \<Rightarrow> string \<Rightarrow> string \<Rightarrow> string" where
  "replace [] old new = (if old = [] then new else [])"
| "replace (c # cs) old new =
     (if old = [] then new @ c # replace cs old new
      else if prefix old (c # cs) then new @ replace (drop (length old) (c # cs)) old new
      else c # replace cs old new)"
  by pat_completeness auto
termination
  by (relation "measure (\<lambda>(s, old, new). length s)") auto

text \<open>
  \<open>str.split(sep)\<close> for a separator of one character, which is how the operator
  calls it (\<open>split("-")\<close>); the separator is therefore a \<open>char\<close>. The result always
  has at least one segment. \<open>cur\<close> collects the characters of the segment being read.
\<close>

fun split_from :: "string \<Rightarrow> string \<Rightarrow> char \<Rightarrow> string list" where
  "split_from cur [] sep = [cur]"
| "split_from cur (c # cs) sep =
     (if c = sep then cur # split_from [] cs sep else split_from (cur @ [c]) cs sep)"

definition split :: "string \<Rightarrow> char \<Rightarrow> string list" where
  "split s sep = split_from [] s sep"

subsection \<open>Release records and the release feed\<close>

text \<open>
  \<open>class Release\<close>: the three attributes with their class-level defaults.
\<close>

record Release =
  version_string :: string
  is_prerelease :: bool
  download_url :: string

definition Release_new :: Release where
  "Release_new = \<lparr>version_string = [], is_prerelease = False, download_url = []\<rparr>"

text \<open>
  The decoded JSON of the feed: a list of objects with the keys \<open>name\<close>,
  \<open>prerelease\<close> and \<open>assets\<close>; an asset has the keys \<open>name\<close> and
  \<open>browser_download_url\<close>.
\<close>

record asset =
  asset_name :: string
  browser_download_url :: string

record release_info =
  name :: string
  prerelease :: bool
  assets :: "asset list"

text \<open>
  \<open>releases = OrderedDict()\<close>: keys in the order of their first insertion; assigning
  to a key that is present replaces its value in place. This is \<open>AList.update\<close>;
  \<open>releases.values()\<close> is \<open>map snd\<close> and \<open>releases[k]\<close> is \<open>map_of\<close>.
\<close>

type_synonym catalog = "(string \<times> Release) list"

subsection \<open>Matching an asset (lines 109 to 128)\<close>

text \<open>
  Lines 113 to 123: the asset name without every occurrence of \<open>BlendLuxCore-\<close> and
  of \<open>.zip\<close>, split at the dashes. Two parts are \<open>version, system\<close> of a build without
  OpenCL, three parts are \<open>version, system, _\<close> of an OpenCL build; for any other
  number of parts the loop goes on to the next asset (\<open>None\<close>).
\<close>

definition middle :: "string \<Rightarrow> string" where
  "middle asset_name' = replace (replace asset_name' ''BlendLuxCore-'' []) ''.zip'' []"

definition parse_asset_name :: "string \<Rightarrow> (string \<times> string \<times> bool) option" where
  "parse_asset_name asset_name' =
     (let parts = split (middle asset_name') CHR ''-'' in
      if length parts = 2 then Some (parts ! 0, parts ! 1, False)
      else if length parts = 3 then Some (parts ! 0, parts ! 1, True)
      else None)"

text \<open>
  The loop over the assets of one release. It returns the entry, with \<open>download_url\<close>
  set from the first asset of the right system and OpenCL flag (\<open>break\<close>), or unchanged
  when the list is exhausted.
\<close>

fun asset_loop :: "string \<Rightarrow> bool \<Rightarrow> asset list \<Rightarrow> Release \<Rightarrow> Release" where
  "asset_loop current_system current_is_opencl [] entry = entry"
| "asset_loop current_system current_is_opencl (a # rest) entry =
     (case parse_asset_name (asset_name a) of
        None \<Rightarrow> asset_loop current_system current_is_opencl rest entry
      | Some (version, system, is_opencl) \<Rightarrow>
          if system = current_system \<and> is_opencl = current_is_opencl
          then entry\<lparr>download_url := browser_download_url a\<rparr>
          else asset_loop current_system current_is_opencl rest entry)"

subsection \<open>Building the catalog (lines 103 to 132)\<close>

definition make_entry :: "string \<Rightarrow> bool \<Rightarrow> release_info \<Rightarrow> Release" where
  "make_entry current_system current_is_opencl info =
     asset_loop current_system current_is_opencl (assets info)
       (Release_new\<lparr>version_string := replace (name info) ''BlendLuxCore '' [],
                    is_prerelease := prerelease info\<rparr>)"

text \<open>
  The loop over the feed: an entry whose \<open>download_url\<close> is still the empty string is
  not stored.
\<close>

fun release_loop :: "string \<Rightarrow> bool \<Rightarrow> release_info list \<Rightarrow> catalog \<Rightarrow> catalog" where
  "release_loop current_system current_is_opencl [] releases = releases"
| "release_loop current_system current_is_opencl (info # rest) releases =
     (let entry = make_entry current_system current_is_opencl info in
      release_loop current_system current_is_opencl rest
        (if download_url entry \<noteq> []
         then AList.update (version_string entry) entry releases
         else releases))"

subsection \<open>Outcomes of an operator call\<close>

text \<open>
  What can leave the operator as an exception. \<open>OtherError\<close> stands for any other
  exception that derives from \<open>Exception\<close>. \<open>KeyboardInterrupt\<close> and
  \<open>SystemExit\<close> derive from \<open>BaseException\<close> only, so a handler
  \<open>except Exception\<close> does not catch them; \<open>is_Exception\<close> is what such a handler
  catches.
\<close>

datatype exn =
    KeyError string
  | JSONDecodeError
  | FileNotFoundError string
  | NotADirectoryError string
  | IsADirectoryError string
  | FileExistsError string
  | ShutilError string
  | BadZipFile
  | IncompleteRead
  | TimeoutError
  | OtherError string
  | KeyboardInterrupt
  | SystemExit

fun is_Exception :: "exn \<Rightarrow> bool" where
  "is_Exception KeyboardInterrupt = False"
| "is_Exception SystemExit = False"
| "is_Exception _ = True"

text \<open>
  The set an operator method returns (\<open>{"FINISHED"}\<close>, \<open>{"CANCELLED"}\<close>, and
  \<open>{"RUNNING_MODAL"}\<close> from \<open>invoke_props_dialog\<close>), or the exception that left it.
\<close>

datatype status = FINISHED | CANCELLED | RUNNING_MODAL | RAISED exn

text \<open>
  \<open>reports\<close> are the calls of \<open>self.report\<close> in order, each with its level and its
  message; \<open>state\<close> is the mutable state the call leaves behind (the dictionary
  \<open>releases\<close> for \<open>invoke\<close>, the files for \<open>execute\<close>).
\<close>

record 's outcome =
  reports :: "(string \<times> string) list"
  status :: status
  state :: 's

subsection \<open>invoke (lines 72 to 135)\<close>

text \<open>
  The answer to \<open>requests.get\<close>: the call raises \<open>ConnectionError\<close>, or there is a
  response with its \<open>ok\<close> flag and its body, \<open>None\<close> when \<open>json.loads\<close> rejects it.
  The entries of a decoded body are taken to have the three keys with values of the
  right types.
\<close>

datatype http_result = ConnectionError | Response bool "release_info list option"

record invoke_env =
  requests_get :: http_result
  platform_system :: string
  luxrays_disable_opencl :: bool

definition system_mapping :: "(string \<times> string) list" where
  "system_mapping = [(''Linux'', ''linux64''), (''Windows'', ''win64'')]"

definition invoke :: "invoke_env \<Rightarrow> catalog \<Rightarrow> catalog outcome" where
  "invoke env old_releases =
     (let releases = [] in
      case requests_get env of
        ConnectionError \<Rightarrow>
          \<lparr>reports = [(''ERROR'', ''Connection error'')], status = CANCELLED, state = releases\<rparr>
      | Response ok body \<Rightarrow>
          if \<not> ok
          then \<lparr>reports = [(''ERROR'', ''Response not ok'')], status = CANCELLED, state = releases\<rparr>
          else
            (case body of
               None \<Rightarrow> \<lparr>reports = [], status = RAISED JSONDecodeError, state = releases\<rparr>
             | Some response \<Rightarrow>
                 (let current_is_opencl = \<not> luxrays_disable_opencl env in
                  case map_of system_mapping (platform_system env) of
                    None \<Rightarrow>
                      \<lparr>reports = [(''ERROR'', ''Unsupported system: '' @ platform_system env)],
                       status = CANCELLED, state = releases\<rparr>
                  | Some current_system \<Rightarrow>
                      \<lparr>reports = [], status = RUNNING_MODAL,
                       state = release_loop current_system current_is_opencl response releases\<rparr>)))"

subsection \<open>The installed version and the drop-down list (lines 31 to 61)\<close>

text \<open>
  \<open>bl_info\<close> is the add-on's description in the package's \<open>__init__.py\<close>; the
  operator reads the first two numbers of its \<open>version\<close> triple and its \<open>warning\<close>
  string. \<open>format_d\<close> is \<open>"%d" % i\<close>.
\<close>

record bl_info =
  version :: "int \<times> int \<times> int"
  warning :: string

function str_nat :: "nat \<Rightarrow> string" where
  "str_nat n =
     (if n < 10 then [''0123456789'' ! n]
      else str_nat (n div 10) @ [''0123456789'' ! (n mod 10)])"
  by pat_completeness auto
termination
  by (relation "measure id") auto

definition format_d :: "int \<Rightarrow> string" where
  "format_d i = (if i < 0 then CHR ''-'' # str_nat (nat (- i)) else str_nat (nat i))"

definition get_current_version :: "bl_info \<Rightarrow> string" where
  "get_current_version info =
     (case version info of
        (major, minor, _) \<Rightarrow> (''v'' @ format_d major @ ''.'' @ format_d minor) @ warning info)"

text \<open>
  An item of the enumeration is \<open>(identifier, name, description, icon, number)\<close>.
  The loop appends one item per value of the dictionary; \<open>i\<close> is the counter of
  \<open>enumerate\<close>.
\<close>

type_synonym item = "string \<times> string \<times> string \<times> string \<times> nat"

fun items_loop :: "string \<Rightarrow> nat \<Rightarrow> Release list \<Rightarrow> item list \<Rightarrow> item list" where
  "items_loop current_version i [] items = items"
| "items_loop current_version i (release # rest) items =
     (let (icon, description) =
            (if version_string release = current_version then (''FILE_TICK'', [] @ '' (installed)'')
             else if is_prerelease release then (''ERROR'', [] @ '' (unstable)'')
             else (''NONE'', []))
      in items_loop current_version (Suc i) rest
           (items @ [(version_string release, version_string release, description, icon, i)]))"

definition release_items_callback :: "bl_info \<Rightarrow> catalog \<Rightarrow> item list" where
  "release_items_callback info releases =
     items_loop (get_current_version info) 0 (map snd releases) []"

subsection \<open>Paths and files\<close>

text \<open>
  The files on disk: an association list from absolute path names to what is stored
  there, a regular file with its bytes or a directory. The entries of a directory are
  the paths that continue its own path after a slash. Looking a path up is \<open>map_of\<close>.
  Path names are POSIX path names.
\<close>

type_synonym path = string

datatype node = File string | Dir

type_synonym filesystem = "(path \<times> node) list"

text \<open>\<open>os.path.exists\<close> and \<open>os.path.isdir\<close>.\<close>

definition path_exists :: "filesystem \<Rightarrow> path \<Rightarrow> bool" where
  "path_exists fs p = (map_of fs p \<noteq> None)"

definition isdir :: "filesystem \<Rightarrow> path \<Rightarrow> bool" where
  "isdir fs p = (map_of fs p = Some Dir)"

text \<open>\<open>under d p\<close>: the path \<open>p\<close> is \<open>d\<close> itself or lies somewhere below \<open>d\<close>.\<close>

definition under :: "path \<Rightarrow> path \<Rightarrow> bool" where
  "under d p = (p = d \<or> prefix (d @ ''/'') p)"

text \<open>
  \<open>posixpath.dirname\<close>, \<open>posixpath.basename\<close> and \<open>posixpath.join\<close> (of two
  components), and \<open>str.rstrip\<close> for one character.
\<close>

definition rstrip :: "string \<Rightarrow> char \<Rightarrow> string" where
  "rstrip s c = rev (dropWhile (\<lambda>x. x = c) (rev s))"

definition dirname :: "path \<Rightarrow> path" where
  "dirname p =
     (let head = rev (dropWhile (\<lambda>x. x \<noteq> CHR ''/'') (rev p)) in
      if head \<noteq> [] \<and> head \<noteq> replicate (length head) CHR ''/''
      then rstrip head CHR ''/'' else head)"

definition basename :: "path \<Rightarrow> path" where
  "basename p = rev (takeWhile (\<lambda>x. x \<noteq> CHR ''/'') (rev p))"

definition join :: "path \<Rightarrow> path \<Rightarrow> path" where
  "join a b =
     (if prefix ''/'' b then b
      else if a = [] \<or> last a = CHR ''/'' then a @ b
      else a @ ''/'' @ b)"

text \<open>
  \<open>shutil.rmtree\<close>: the directory and everything below it is removed; the call raises
  when the path is missing or is not a directory.
\<close>

definition rmtree :: "filesystem \<Rightarrow> path \<Rightarrow> exn + filesystem" where
  "rmtree fs p =
     (case map_of fs p of
        None \<Rightarrow> Inl (FileNotFoundError p)
      | Some (File _) \<Rightarrow> Inl (NotADirectoryError p)
      | Some Dir \<Rightarrow> Inr (filter (\<lambda>(q, n). \<not> under p q) fs))"

text \<open>
  \<open>os.rename\<close> of an existing path to a path that does not exist: the entry and
  everything below it change their names.
\<close>

definition rename :: "filesystem \<Rightarrow> path \<Rightarrow> path \<Rightarrow> filesystem" where
  "rename fs src dst =
     map (\<lambda>(q, n). if under src q then (dst @ drop (length src) q, n) else (q, n)) fs"

text \<open>
  \<open>shutil.move\<close>. A destination that is an existing directory receives the source
  inside it, under the source's base name, unless that name is taken. Otherwise the
  source is renamed to the destination: this fails for a missing source, for a
  destination inside the source, and for a directory put in the place of an existing
  file; a regular file replaces an existing file. The directory that is to hold the
  destination is taken to exist. A failed call leaves the files as they are.
\<close>

definition move :: "filesystem \<Rightarrow> path \<Rightarrow> path \<Rightarrow> exn + filesystem" where
  "move fs src dst =
     (if src = dst then (if path_exists fs src then Inr fs else Inl (FileNotFoundError src))
      else
        (let real_dst = (if isdir fs dst then join dst (basename (rstrip src CHR ''/'')) else dst) in
         if isdir fs dst \<and> path_exists fs real_dst then Inl (ShutilError real_dst)
         else if \<not> path_exists fs src then Inl (FileNotFoundError src)
         else if under src real_dst then Inl (ShutilError real_dst)
         else if path_exists fs real_dst then
           (if isdir fs src then Inl (FileExistsError real_dst)
            else Inr (rename (filter (\<lambda>(q, n). q \<noteq> real_dst) fs) src real_dst))
         else Inr (rename fs src real_dst)))"

text \<open>
  \<open>tempfile.TemporaryDirectory\<close>: entering the \<open>with\<close> block creates the directory,
  leaving it on any path removes the directory with everything below it.
\<close>

definition mkdtemp :: "filesystem \<Rightarrow> path \<Rightarrow> filesystem" where
  "mkdtemp fs temp_dir = AList.update temp_dir Dir fs"

definition cleanup :: "filesystem \<Rightarrow> path \<Rightarrow> filesystem" where
  "cleanup fs temp_dir = filter (\<lambda>(q, n). \<not> under temp_dir q) fs"

subsection \<open>execute (lines 137 to 202)\<close>

text \<open>
  What the download of lines 159 to 161 does for a URL. \<open>urlopen\<close> raises
  \<open>URLError\<close> (the string is the text of the error), or it raises something else, or
  it returns a handle; then \<open>read\<close> on the handle delivers the body, or raises
  \<open>URLError\<close>, or raises something else (a connection that breaks or times out while
  the body is read raises \<open>IncompleteRead\<close> or a timeout, neither of them a
  \<open>URLError\<close>).
\<close>

datatype read_result = Body string | ReadURLError string | ReadRaises exn

datatype urlopen_result = URLError string | UrlopenRaises exn | Opened read_result

text \<open>
  What \<open>ZipFile(...).extractall(addon_dir)\<close> does for the bytes of an archive. In
  both cases the list holds what the call has written, in order: the path of each
  file or directory it created or overwrote, relative to the target directory, and what
  it stored there. \<open>ExtractFailed\<close> is a call that raised the given exception after
  these writes (none when the archive cannot be opened).
\<close>

datatype extract_result =
    Extracted "(path \<times> node) list"
  | ExtractFailed exn "(path \<times> node) list"

record execute_env =
  file_path :: path
  temp_dir_path :: path
  urlopen :: "string \<Rightarrow> urlopen_result"
  unzip :: "string \<Rightarrow> extract_result"

text \<open>Lines 173 to 177: the name of the backup directory.\<close>

function backup_loop :: "filesystem \<Rightarrow> path \<Rightarrow> path" where
  "backup_loop fs backup_path =
     (if path_exists fs backup_path then backup_loop fs (backup_path @ ''b'') else backup_path)"
  by pat_completeness auto
termination
proof (relation "measure (\<lambda>(fs, p). length (filter (\<lambda>(q, n). length p \<le> length q) fs))")
  show "wf (measure (\<lambda>(fs, p). length (filter (\<lambda>(q, n). length p \<le> length q) fs)))"
    by simp
next
  fix fs :: filesystem and backup_path :: path
  assume "path_exists fs backup_path"
  then obtain n where mem: "(backup_path, n) \<in> set fs"
    by (auto simp: path_exists_def dest: map_of_SomeD)
  let ?long = "filter (\<lambda>(q, n). length backup_path \<le> length q) fs"
  let ?longer = "\<lambda>(q, n). length (backup_path @ ''b'') \<le> length (q :: path)"
  have "filter ?longer fs = filter ?longer ?long"
    by (induction fs) auto
  then have "length (filter ?longer fs) = length (filter ?longer ?long)"
    by (rule arg_cong)
  also have "\<dots> < length ?long"
    by (rule length_filter_less [of "(backup_path, n)"]) (use mem in auto)
  finally show "((fs, backup_path @ ''b''), (fs, backup_path)) \<in>
      measure (\<lambda>(fs, p). length (filter (\<lambda>(q, n). length p \<le> length q) fs))"
    by (simp only: in_measure prod.case)
qed

declare backup_loop.simps [simp del]

text \<open>The writes of \<open>extractall\<close>, below the target directory.\<close>

fun extract_members :: "filesystem \<Rightarrow> path \<Rightarrow> (path \<times> node) list \<Rightarrow> filesystem" where
  "extract_members fs addon_dir [] = fs"
| "extract_members fs addon_dir ((member, n) # rest) =
     extract_members (AList.update (join addon_dir member) n fs) addon_dir rest"

text \<open>
  Lines 182 to 188, the body of the \<open>try\<close>: open the archive, extract it, remove the
  backup. \<open>Inl\<close> is an exception together with the files as they are when it is raised.
\<close>

definition try_extract ::
  "execute_env \<Rightarrow> filesystem \<Rightarrow> path \<Rightarrow> path \<Rightarrow> path \<Rightarrow> (exn \<times> filesystem) + filesystem" where
  "try_extract env fs temp_zip_path addon_dir backup_path =
     (case map_of fs temp_zip_path of
        None \<Rightarrow> Inl (FileNotFoundError temp_zip_path, fs)
      | Some Dir \<Rightarrow> Inl (IsADirectoryError temp_zip_path, fs)
      | Some (File bytes) \<Rightarrow>
          (case unzip env bytes of
             ExtractFailed e written \<Rightarrow> Inl (e, extract_members fs addon_dir written)
           | Extracted written \<Rightarrow>
               (let fs' = extract_members fs addon_dir written in
                case rmtree fs' backup_path of
                  Inl e \<Rightarrow> Inl (e, fs')
                | Inr fs'' \<Rightarrow> Inr fs'')))"

text \<open>
  Lines 189 to 194, the handler \<open>except Exception\<close>. \<open>Inl\<close> is an exception raised
  inside the handler, with the files as they are then.
\<close>

definition rollback :: "filesystem \<Rightarrow> path \<Rightarrow> path \<Rightarrow> (exn \<times> filesystem) + filesystem" where
  "rollback fs blendluxcore_dir backup_path =
     (case (if path_exists fs blendluxcore_dir then rmtree fs blendluxcore_dir else Inr fs) of
        Inl e \<Rightarrow> Inl (e, fs)
      | Inr fs' \<Rightarrow>
          (case move fs' backup_path blendluxcore_dir of
             Inl e \<Rightarrow> Inl (e, fs')
           | Inr fs'' \<Rightarrow> Inr fs''))"

text \<open>
  Lines 167 to 194: from the directories of the installation to the end of the
  \<open>try\<close> statement. \<open>Inr\<close> is the normal end of the statement, reached after a
  successful extraction as well as after the handler; \<open>Inl\<close> is an exception that
  leaves it: one raised by the first move, one the handler does not catch, or one
  raised inside the handler.
\<close>

definition blendluxcore_dir :: "execute_env \<Rightarrow> path" where
  "blendluxcore_dir env = dirname (dirname (file_path env))"

definition addon_dir :: "execute_env \<Rightarrow> path" where
  "addon_dir env = dirname (blendluxcore_dir env)"

definition backup_path :: "execute_env \<Rightarrow> filesystem \<Rightarrow> path" where
  "backup_path env fs = backup_loop fs (blendluxcore_dir env @ ''_backup'')"

definition replace_installation ::
  "execute_env \<Rightarrow> filesystem \<Rightarrow> path \<Rightarrow> (exn \<times> filesystem) + filesystem" where
  "replace_installation env fs temp_zip_path =
     (case move fs (blendluxcore_dir env) (backup_path env fs) of
        Inl e \<Rightarrow> Inl (e, fs)
      | Inr fs1 \<Rightarrow>
          (case try_extract env fs1 temp_zip_path (addon_dir env) (backup_path env fs) of
             Inr fs2 \<Rightarrow> Inr fs2
           | Inl (e, fs2) \<Rightarrow>
               if is_Exception e then rollback fs2 (blendluxcore_dir env) (backup_path env fs)
               else Inl (e, fs2)))"

text \<open>
  Lines 154 to 202: the body of the \<open>with\<close> block and, when the block ends normally,
  the final report. Once \<open>urlopen\<close> has returned, \<open>open(temp_zip_path, "wb")\<close>
  creates the empty file \<open>default.zip\<close> in the temporary directory, and the body that
  \<open>read\<close> delivers is written to it. The handler of line 162 catches \<open>URLError\<close>
  and nothing else.
\<close>

definition download_and_install :: "execute_env \<Rightarrow> Release \<Rightarrow> filesystem \<Rightarrow> filesystem outcome" where
  "download_and_install env requested_release fs =
     (let temp_zip_path = join (temp_dir_path env) ''default.zip'';
          url = download_url requested_release
      in case urlopen env url of
           URLError err \<Rightarrow>
             \<lparr>reports = [(''ERROR'', ''Could not download: '' @ err)], status = CANCELLED, state = fs\<rparr>
         | UrlopenRaises e \<Rightarrow> \<lparr>reports = [], status = RAISED e, state = fs\<rparr>
         | Opened r \<Rightarrow>
             (let fs1 = AList.update temp_zip_path (File []) fs in
              case r of
                ReadURLError err \<Rightarrow>
                  \<lparr>reports = [(''ERROR'', ''Could not download: '' @ err)], status = CANCELLED,
                   state = fs1\<rparr>
              | ReadRaises e \<Rightarrow> \<lparr>reports = [], status = RAISED e, state = fs1\<rparr>
              | Body bytes \<Rightarrow>
                  (case replace_installation env (AList.update temp_zip_path (File bytes) fs1)
                          temp_zip_path of
                     Inl (e, fs') \<Rightarrow> \<lparr>reports = [], status = RAISED e, state = fs'\<rparr>
                   | Inr fs' \<Rightarrow>
                       \<lparr>reports = [(''ERROR'', ''Restart Blender!'')], status = FINISHED,
                        state = fs'\<rparr>)))"

text \<open>
  \<open>execute\<close>: \<open>selected_release\<close> is the operator's property of that name, \<open>info\<close>
  is what \<open>get_current_version\<close> reads. The temporary directory exists from the entry
  into the \<open>with\<close> block until any exit from it.
\<close>

definition execute ::
  "execute_env \<Rightarrow> bl_info \<Rightarrow> catalog \<Rightarrow> string \<Rightarrow> filesystem \<Rightarrow> filesystem outcome" where
  "execute env info releases selected_release fs =
     (case map_of releases selected_release of
        None \<Rightarrow> \<lparr>reports = [], status = RAISED (KeyError selected_release), state = fs\<rparr>
      | Some requested_release \<Rightarrow>
          (let current_version = get_current_version info in
           if version_string requested_release = current_version
           then \<lparr>reports = [(''ERROR'', ''This is the currently installed version'')],
                 status = CANCELLED, state = fs\<rparr>
           else
             (let r = download_and_install env requested_release (mkdtemp fs (temp_dir_path env))
              in r\<lparr>state := cleanup (state r) (temp_dir_path env)\<rparr>)))"

section \<open>Vocabulary of the properties\<close>

text \<open>
  An asset is the one looked for when its name parses and the test of line 125 holds:
  its system segment is the current system and its OpenCL flag is the current one.
\<close>

definition asset_matches :: "string \<Rightarrow> bool \<Rightarrow> asset \<Rightarrow> bool" where
  "asset_matches current_system current_is_opencl a =
     (case parse_asset_name (asset_name a) of
        None \<Rightarrow> False
      | Some (v, system, is_opencl) \<Rightarrow> system = current_system \<and> is_opencl = current_is_opencl)"

text \<open>
  The directories a path lies in: its prefixes that end just before a slash (the empty
  prefix, which stands for the root of the file system, left out). A file system is well
  formed when each of them is stored as a directory.
\<close>

definition ancestors :: "path \<Rightarrow> path list" where
  "ancestors p = map (\<lambda>i. take i p) (filter (\<lambda>i. p ! i = CHR ''/'') [1..<length p])"

definition parents_exist :: "filesystem \<Rightarrow> bool" where
  "parents_exist fs = list_all (\<lambda>(q, n). list_all (isdir fs) (ancestors q)) fs"

text \<open>
  \<open>writes_below root target written\<close>: every write of an extraction into \<open>target\<close>
  goes to a path below \<open>root\<close> or creates the directory \<open>root\<close> itself, and an
  extraction that wrote anything has created \<open>root\<close>. This is an archive that unpacks
  into the installation directory and nowhere else.
\<close>

definition writes_below :: "path \<Rightarrow> path \<Rightarrow> (path \<times> node) list \<Rightarrow> bool" where
  "writes_below root target written =
     (list_all (\<lambda>(member, n). prefix (root @ ''/'') (join target member) \<or>
                               (join target member = root \<and> n = Dir)) written \<and>
      (written = [] \<or> list_ex (\<lambda>(member, n). join target member = root) written))"

text \<open>
  \<open>writes_spare root backup target written\<close>: the extraction into \<open>target\<close> wrote
  nothing at or below the path \<open>backup\<close>, and it did not put a regular file in the place
  of the directory \<open>root\<close>; a write below \<open>root\<close> comes with the creation of
  \<open>root\<close>, as the list holds every directory the extraction created.
\<close>

definition writes_spare :: "path \<Rightarrow> path \<Rightarrow> path \<Rightarrow> (path \<times> node) list \<Rightarrow> bool" where
  "writes_spare root backup target written =
     (list_all (\<lambda>(member, n). \<not> under backup (join target member) \<and>
                               (join target member = root \<longrightarrow> n = Dir)) written \<and>
      (list_ex (\<lambda>(member, n). under root (join target member)) written \<longrightarrow>
       list_ex (\<lambda>(member, n). join target member = root) written))"


section \<open>Example inputs\<close>

text \<open>
  A release with a plain and an OpenCL build for Linux, an old release whose assets
  carry the old naming scheme or another system, and a second feed entry with the name
  of the first.
\<close>

definition example_release_2_1 :: release_info where
  "example_release_2_1 =
     \<lparr>name = ''BlendLuxCore v2.1'', prerelease = False,
      assets = [\<lparr>asset_name = ''BlendLuxCore-v2.1-linux64.zip'',
                 browser_download_url = ''https://example.org/v2.1/linux64''\<rparr>,
                \<lparr>asset_name = ''BlendLuxCore-v2.1-linux64-opencl.zip'',
                 browser_download_url = ''https://example.org/v2.1/linux64-opencl''\<rparr>]\<rparr>"

definition example_release_old :: release_info where
  "example_release_old =
     \<lparr>name = ''BlendLuxCore v2.0alpha1'', prerelease = True,
      assets = [\<lparr>asset_name = ''BlendLuxCore-v2.0alpha1-linux64-opencl-sdk.zip'',
                 browser_download_url = ''https://example.org/v2.0alpha1/sdk''\<rparr>,
                \<lparr>asset_name = ''BlendLuxCore-v2.0alpha1-win64-opencl.zip'',
                 browser_download_url = ''https://example.org/v2.0alpha1/win64-opencl''\<rparr>]\<rparr>"

definition example_release_2_1_again :: release_info where
  "example_release_2_1_again =
     \<lparr>name = ''BlendLuxCore v2.1'', prerelease = True,
      assets = [\<lparr>asset_name = ''BlendLuxCore-v2.1-linux64-opencl.zip'',
                 browser_download_url = ''https://example.org/v2.1/rebuilt''\<rparr>]\<rparr>"

definition example_invoke_env :: "release_info list \<Rightarrow> invoke_env" where
  "example_invoke_env feed =
     \<lparr>requests_get = Response True (Some feed), platform_system = ''Linux'',
      luxrays_disable_opencl = False\<rparr>"

definition example_bl_info :: bl_info where
  "example_bl_info = \<lparr>version = (2, 1, 0), warning = ''beta2''\<rparr>"

definition example_catalog :: catalog where
  "example_catalog =
     [(''v2.2alpha0'', \<lparr>version_string = ''v2.2alpha0'', is_prerelease = True, download_url = ''u3''\<rparr>),
      (''v2.1beta2'', \<lparr>version_string = ''v2.1beta2'', is_prerelease = True, download_url = ''u2''\<rparr>),
      (''v2.0'', \<lparr>version_string = ''v2.0'', is_prerelease = False, download_url = ''u1''\<rparr>)]"

text \<open>
  Files on disk: an installation in \<open>/home/u/addons/BlendLuxCore\<close>, a directory
  \<open>BlendLuxCore_backup\<close> of the user's beside it, and the same files after the
  download into a fresh temporary directory. In the environment the download of
  \<open>u3\<close> delivers an archive whose extraction raises after two writes, and any other
  download raises \<open>URLError\<close>.
\<close>

definition example_fs :: filesystem where
  "example_fs =
     [(''/home'', Dir), (''/home/u'', Dir), (''/home/u/addons'', Dir),
      (''/home/u/addons/BlendLuxCore'', Dir),
      (''/home/u/addons/BlendLuxCore/__init__.py'', File ''old init''),
      (''/home/u/addons/BlendLuxCore/operators'', Dir),
      (''/home/u/addons/BlendLuxCore/operators/update.py'', File ''old update''),
      (''/home/u/addons/BlendLuxCore_backup'', Dir),
      (''/home/u/addons/BlendLuxCore_backup/notes.txt'', File ''kept by the user''),
      (''/tmp'', Dir)]"

definition example_fs_downloaded :: filesystem where
  "example_fs_downloaded =
     example_fs @ [(''/tmp/tmpq1w2e3'', Dir), (''/tmp/tmpq1w2e3/default.zip'', File ''PK broken'')]"

definition example_execute_env :: execute_env where
  "example_execute_env =
     \<lparr>file_path = ''/home/u/addons/BlendLuxCore/operators/update.py'',
      temp_dir_path = ''/tmp/tmpq1w2e3'',
      urlopen = (\<lambda>url. if url = ''u3'' then Opened (Body ''PK broken'')
                         else URLError ''<urlopen error timed out>''),
      unzip = (\<lambda>bytes. ExtractFailed BadZipFile
                 [(''BlendLuxCore'', Dir), (''BlendLuxCore/__init__.py'', File ''new init'')])\<rparr>"

text \<open>The same environment with an archive that extracts without error.\<close>

definition example_execute_env_ok :: execute_env where
  "example_execute_env_ok =
     example_execute_env
       \<lparr>unzip := (\<lambda>bytes. Extracted
                   [(''BlendLuxCore'', Dir), (''BlendLuxCore/__init__.py'', File ''new init'')])\<rparr>"


definition example_execute_env_file :: execute_env where
  "example_execute_env_file =
     example_execute_env
       \<lparr>unzip := (\<lambda>bytes. ExtractFailed BadZipFile [(''BlendLuxCore'', File ''stub'')])\<rparr>"

definition example_execute_env_stray :: execute_env where
  "example_execute_env_stray =
     example_execute_env
       \<lparr>unzip := (\<lambda>bytes. ExtractFailed BadZipFile
                   [(''BlendLuxCore'', Dir), (''BlendLuxCore_backupb/stray.py'', File ''stray'')])\<rparr>"

definition example_execute_env_interrupt :: execute_env where
  "example_execute_env_interrupt =
     example_execute_env
       \<lparr>unzip := (\<lambda>bytes. ExtractFailed KeyboardInterrupt
                   [(''BlendLuxCore'', Dir), (''BlendLuxCore/__init__.py'', File ''new init'')])\<rparr>"

lemmas example_defs =
  example_release_2_1_def example_release_old_def example_release_2_1_again_def
  example_invoke_env_def

lemmas eval_defs =
  invoke_def system_mapping_def make_entry_def parse_asset_name_def middle_def split_def
  Release_new_def asset_matches_def

section \<open>Properties of the catalog\<close>

subsection \<open>Strings and segments\<close>

lemma length_split_from: "length (split_from cur s sep) = Suc (count_list s sep)"
  by (induction s arbitrary: cur) auto

lemma length_split: "length (split s sep) = Suc (count_list s sep)"
  by (simp add: split_def length_split_from)

lemma split_from_free: "sep \<notin> set s \<Longrightarrow> split_from cur s sep = [cur @ s]"
  by (induction s arbitrary: cur) auto

lemma split_from_sep:
  "sep \<notin> set u \<Longrightarrow> split_from cur (u @ sep # r) sep = (cur @ u) # split_from [] r sep"
  by (induction u arbitrary: cur) auto

lemma split_from_concat:
  "concat (map (\<lambda>seg. sep # seg) (split_from cur s sep)) = sep # cur @ s"
  by (induction s arbitrary: cur) auto

lemma split_from_segments:
  "seg \<in> set (split_from cur s sep) \<Longrightarrow> sep \<in> set seg \<Longrightarrow> sep \<in> set cur"
proof (induction s arbitrary: cur)
  case Nil
  then show ?case by simp
next
  case (Cons c cs)
  show ?case
  proof (cases "c = sep")
    case True
    with Cons.prems(1) have "seg = cur \<or> seg \<in> set (split_from [] cs sep)" by simp
    then show ?thesis
    proof
      assume "seg = cur"
      with Cons.prems(2) show ?thesis by simp
    next
      assume "seg \<in> set (split_from [] cs sep)"
      from Cons.IH [OF this Cons.prems(2)] show ?thesis by simp
    qed
  next
    case False
    with Cons.prems(1) have "seg \<in> set (split_from (cur @ [c]) cs sep)" by simp
    from Cons.IH [OF this Cons.prems(2)] False show ?thesis by auto
  qed
qed

text \<open>
  What two and three segments are: the string is two, or three, stretches free of the
  separator with one separator between neighbours.
\<close>

lemma split_two_iff:
  "split x sep = [v, s] \<longleftrightarrow> x = v @ sep # s \<and> sep \<notin> set v \<and> sep \<notin> set s"
proof
  assume eq: "split x sep = [v, s]"
  from split_from_concat [of sep "[]" x] eq have "x = v @ sep # s"
    by (simp add: split_def)
  moreover have "sep \<notin> set v" "sep \<notin> set s"
    using split_from_segments [of v "[]" x sep] split_from_segments [of s "[]" x sep] eq
    by (auto simp: split_def)
  ultimately show "x = v @ sep # s \<and> sep \<notin> set v \<and> sep \<notin> set s" by simp
next
  assume "x = v @ sep # s \<and> sep \<notin> set v \<and> sep \<notin> set s"
  then show "split x sep = [v, s]"
    by (simp add: split_def split_from_sep split_from_free)
qed

lemma split_three_iff:
  "split x sep = [v, s, t] \<longleftrightarrow>
     x = v @ sep # s @ sep # t \<and> sep \<notin> set v \<and> sep \<notin> set s \<and> sep \<notin> set t"
proof
  assume eq: "split x sep = [v, s, t]"
  from split_from_concat [of sep "[]" x] eq have "x = v @ sep # s @ sep # t"
    by (simp add: split_def)
  moreover have "sep \<notin> set v" "sep \<notin> set s" "sep \<notin> set t"
    using split_from_segments [of v "[]" x sep] split_from_segments [of s "[]" x sep]
      split_from_segments [of t "[]" x sep] eq
    by (auto simp: split_def)
  ultimately show "x = v @ sep # s @ sep # t \<and> sep \<notin> set v \<and> sep \<notin> set s \<and> sep \<notin> set t"
    by simp
next
  assume "x = v @ sep # s @ sep # t \<and> sep \<notin> set v \<and> sep \<notin> set s \<and> sep \<notin> set t"
  then show "split x sep = [v, s, t]"
    by (simp add: split_def split_from_sep split_from_free)
qed

text \<open>
  \<open>replace\<close> leaves a string without an occurrence alone and removes an occurrence
  at the start or at the end. So for an asset name of the conventional shape, the prefix
  followed by a middle part and the extension, with no further occurrence of either,
  \<open>middle\<close> is that middle part.
\<close>

lemma replace_absent:
  "old \<noteq> [] \<Longrightarrow> \<not> sublist old s \<Longrightarrow> replace s old new = s"
proof (induction s)
  case Nil
  then show ?case by simp
next
  case (Cons c cs)
  from Cons.prems(2) have "\<not> prefix old (c # cs)" "\<not> sublist old cs"
    by (auto simp: sublist_Cons_right)
  with Cons show ?case by simp
qed

lemma replace_at_start:
  "old \<noteq> [] \<Longrightarrow> replace (old @ s) old new = new @ replace s old new"
  by (cases old) auto

lemma replace_at_end:
  assumes "old \<noteq> []" and "\<not> sublist old (m @ butlast old)"
  shows "replace (m @ old) old [] = m"
  using assms(2)
proof (induction m)
  case Nil
  with assms(1) replace_at_start [of old "[]" "[]"] show ?case by simp
next
  case (Cons c cs)
  have "\<not> prefix old (c # cs @ old)"
  proof
    assume "prefix old (c # cs @ old)"
    then have "prefix old ((c # cs @ butlast old) @ [last old])"
      using assms(1) by simp
    moreover have "length old \<le> length (c # cs @ butlast old)" by simp
    ultimately have "prefix old (c # cs @ butlast old)"
      by (metis prefix_length_prefix prefixI)
    then have "sublist old ((c # cs) @ butlast old)" by (simp add: prefix_imp_sublist)
    with Cons.prems show False by simp
  qed
  moreover from Cons.prems have "\<not> sublist old (cs @ butlast old)"
    by (auto simp: sublist_Cons_right)
  ultimately show ?case using Cons.IH assms(1) by simp
qed

lemma middle_conventional:
  assumes "\<not> sublist ''BlendLuxCore-'' (m @ ''.zip'')" and "\<not> sublist ''.zip'' (m @ ''.zi'')"
  shows "middle (''BlendLuxCore-'' @ m @ ''.zip'') = m"
proof -
  have "replace (''BlendLuxCore-'' @ m @ ''.zip'') ''BlendLuxCore-'' [] = replace (m @ ''.zip'') ''BlendLuxCore-'' []"
    using replace_at_start [of "''BlendLuxCore-''" "m @ ''.zip''" "[]"] by simp
  also have "\<dots> = m @ ''.zip''"
    by (rule replace_absent) (use assms(1) in simp_all)
  finally have "middle (''BlendLuxCore-'' @ m @ ''.zip'') = replace (m @ ''.zip'') ''.zip'' []"
    by (simp add: middle_def del: replace.simps)
  also have "\<dots> = m"
    by (rule replace_at_end) (use assms(2) in simp_all)
  finally show ?thesis .
qed

text \<open>
  Claim C5. For every asset name, with every occurrence of the prefix
  \<open>BlendLuxCore-\<close> and of the extension \<open>.zip\<close> removed (\<open>middle\<close>) and the rest
  split at the dashes: the name is read as version \<open>v\<close> and system \<open>s\<close> of a build
  without OpenCL exactly when there are the two segments \<open>[v, s]\<close>; it is read as
  version and system of an OpenCL build exactly when there are three segments
  \<open>[v, s, t]\<close>, whatever the third segment \<open>t\<close> is; it is not read at all exactly when
  the number of segments is neither two nor three, and then the loop over the assets
  goes on with the remaining assets, the entry unchanged. The model has no error value
  at this place: no branch can raise.
\<close>

theorem asset_name_segments:
  "(\<forall>v s. parse_asset_name n = Some (v, s, False) \<longleftrightarrow> split (middle n) CHR ''-'' = [v, s]) \<and>
   (\<forall>v s. parse_asset_name n = Some (v, s, True) \<longleftrightarrow>
            (\<exists>t. split (middle n) CHR ''-'' = [v, s, t])) \<and>
   (parse_asset_name n = None \<longleftrightarrow>
      length (split (middle n) CHR ''-'') \<noteq> 2 \<and> length (split (middle n) CHR ''-'') \<noteq> 3) \<and>
   (\<forall>cs co a rest entry.
      asset_name a = n \<and>
      length (split (middle n) CHR ''-'') \<noteq> 2 \<and> length (split (middle n) CHR ''-'') \<noteq> 3 \<longrightarrow>
      asset_loop cs co (a # rest) entry = asset_loop cs co rest entry)"
proof -
  obtain parts where parts: "split (middle n) CHR ''-'' = parts" by simp
  have two: "length parts = 2 \<longleftrightarrow> (\<exists>v s. parts = [v, s])"
    by (auto simp: length_Suc_conv numeral_2_eq_2)
  have three: "length parts = 3 \<longleftrightarrow> (\<exists>v s t. parts = [v, s, t])"
    by (auto simp: length_Suc_conv numeral_3_eq_3)
  show ?thesis
    unfolding parts
    using two three by (auto simp: parse_asset_name_def parts)
qed

theorem asset_name_segments_witness:
  "parse_asset_name ''BlendLuxCore-v2.0alpha7-linux64.zip'' = Some (''v2.0alpha7'', ''linux64'', False) \<and>
   parse_asset_name ''BlendLuxCore-v2.0alpha7-linux64-opencl.zip'' = Some (''v2.0alpha7'', ''linux64'', True) \<and>
   parse_asset_name ''BlendLuxCore-v2.0alpha7-linux64-cuda.zip'' = Some (''v2.0alpha7'', ''linux64'', True) \<and>
   parse_asset_name ''BlendLuxCore-v2.0alpha1-linux64-opencl-sdk.zip'' = None \<and>
   parse_asset_name ''luxcorerender.zip'' = None \<and>
   asset_loop ''linux64'' True
     [\<lparr>asset_name = ''luxcorerender.zip'', browser_download_url = ''u1''\<rparr>,
      \<lparr>asset_name = ''BlendLuxCore-v2.0alpha7-linux64-opencl.zip'', browser_download_url = ''u2''\<rparr>]
     Release_new
   = asset_loop ''linux64'' True
     [\<lparr>asset_name = ''BlendLuxCore-v2.0alpha7-linux64-opencl.zip'', browser_download_url = ''u2''\<rparr>]
     Release_new"
proof -
  have 1: "split (middle ''BlendLuxCore-v2.0alpha7-linux64.zip'') CHR ''-'' = [''v2.0alpha7'', ''linux64'']"
    by (simp add: middle_def split_def)
  have 2: "split (middle ''BlendLuxCore-v2.0alpha7-linux64-opencl.zip'') CHR ''-''
             = [''v2.0alpha7'', ''linux64'', ''opencl'']"
    by (simp add: middle_def split_def)
  have 3: "split (middle ''BlendLuxCore-v2.0alpha7-linux64-cuda.zip'') CHR ''-''
             = [''v2.0alpha7'', ''linux64'', ''cuda'']"
    by (simp add: middle_def split_def)
  have 4: "length (split (middle ''BlendLuxCore-v2.0alpha1-linux64-opencl-sdk.zip'') CHR ''-'') = 4"
    by (simp add: middle_def split_def)
  have 5: "length (split (middle ''luxcorerender.zip'') CHR ''-'') = 1"
    by (simp add: middle_def split_def)
  show ?thesis
    using asset_name_segments [of "''BlendLuxCore-v2.0alpha7-linux64.zip''"]
      asset_name_segments [of "''BlendLuxCore-v2.0alpha7-linux64-opencl.zip''"]
      asset_name_segments [of "''BlendLuxCore-v2.0alpha7-linux64-cuda.zip''"]
      asset_name_segments [of "''BlendLuxCore-v2.0alpha1-linux64-opencl-sdk.zip''"]
      asset_name_segments [of "''luxcorerender.zip''"]
    unfolding 1 2 3 4 5 by simp
qed

subsection \<open>The asset loop\<close>

lemma asset_loop_find:
  "asset_loop cs co as entry =
     (case List.find (asset_matches cs co) as of
        None \<Rightarrow> entry
      | Some a \<Rightarrow> entry\<lparr>download_url := browser_download_url a\<rparr>)"
  by (induction as) (auto simp: asset_matches_def split: option.splits)

lemma find_first:
  "P a \<Longrightarrow> \<forall>x\<in>set pre. \<not> P x \<Longrightarrow> List.find P (pre @ a # post) = Some a"
  by (induction pre) auto

lemma find_SomeD: "List.find P xs = Some a \<Longrightarrow> a \<in> set xs \<and> P a"
  by (induction xs) (auto split: if_splits)

lemma find_app:
  "List.find P (xs @ ys) = (case List.find P xs of None \<Rightarrow> List.find P ys | Some x \<Rightarrow> Some x)"
  by (induction xs) auto

lemma make_entry_url:
  "download_url (make_entry cs co info) =
     (case List.find (asset_matches cs co) (assets info) of
        None \<Rightarrow> []
      | Some a \<Rightarrow> browser_download_url a)"
  by (simp add: make_entry_def asset_loop_find Release_new_def split: option.splits)

lemma make_entry_version:
  "version_string (make_entry cs co info) = replace (name info) ''BlendLuxCore '' []"
  by (simp add: make_entry_def asset_loop_find Release_new_def split: option.splits)

lemma make_entry_prerelease:
  "is_prerelease (make_entry cs co info) = prerelease info"
  by (simp add: make_entry_def asset_loop_find Release_new_def split: option.splits)

lemma make_entry_url_matched:
  assumes "download_url (make_entry cs co info) \<noteq> []"
  shows "\<exists>a \<in> set (assets info). asset_matches cs co a \<and>
      download_url (make_entry cs co info) = browser_download_url a"
proof (cases "List.find (asset_matches cs co) (assets info)")
  case None
  with assms show ?thesis by (simp add: make_entry_url)
next
  case (Some a)
  from find_SomeD [OF Some] Some show ?thesis by (auto simp: make_entry_url)
qed

lemma make_entry_no_match:
  assumes "\<forall>a \<in> set (assets info). \<not> asset_matches cs co a"
  shows "download_url (make_entry cs co info) = []"
proof (cases "List.find (asset_matches cs co) (assets info)")
  case None
  then show ?thesis by (simp add: make_entry_url)
next
  case (Some a)
  from find_SomeD [OF Some] assms show ?thesis by blast
qed

text \<open>
  Claim C6. The download URL of the entry built for a release is the
  \<open>browser_download_url\<close> of the first asset of the release's list whose system segment
  is the current system and whose OpenCL flag is the current flag (and the empty string
  when there is none); whatever follows that asset in the list has no influence, the
  loop having stopped there. In particular, for the assets
  \<open>[BlendLuxCore-v2.1-linux64.zip, BlendLuxCore-v2.1-linux64-opencl.zip]\<close> on a
  \<open>linux64\<close> installation with OpenCL the URL is the one of the second asset.
\<close>

theorem first_matching_asset:
  "download_url (make_entry cs co info) =
     (case List.find (asset_matches cs co) (assets info) of
        None \<Rightarrow> []
      | Some a \<Rightarrow> browser_download_url a) \<and>
   (\<forall>pre a post.
      assets info = pre @ a # post \<and> asset_matches cs co a \<and>
      (\<forall>x \<in> set pre. \<not> asset_matches cs co x) \<longrightarrow>
      download_url (make_entry cs co info) = browser_download_url a) \<and>
   download_url (make_entry ''linux64'' True
      \<lparr>name = n, prerelease = p,
       assets = [\<lparr>asset_name = ''BlendLuxCore-v2.1-linux64.zip'', browser_download_url = u1\<rparr>,
                 \<lparr>asset_name = ''BlendLuxCore-v2.1-linux64-opencl.zip'', browser_download_url = u2\<rparr>]\<rparr>)
     = u2"
proof (intro conjI allI impI)
  show "download_url (make_entry cs co info) =
     (case List.find (asset_matches cs co) (assets info) of
        None \<Rightarrow> []
      | Some a \<Rightarrow> browser_download_url a)"
    by (rule make_entry_url)
next
  fix pre a post
  assume "assets info = pre @ a # post \<and> asset_matches cs co a \<and>
      (\<forall>x \<in> set pre. \<not> asset_matches cs co x)"
  then show "download_url (make_entry cs co info) = browser_download_url a"
    by (simp add: make_entry_url find_first)
next
  show "download_url (make_entry ''linux64'' True
      \<lparr>name = n, prerelease = p,
       assets = [\<lparr>asset_name = ''BlendLuxCore-v2.1-linux64.zip'', browser_download_url = u1\<rparr>,
                 \<lparr>asset_name = ''BlendLuxCore-v2.1-linux64-opencl.zip'', browser_download_url = u2\<rparr>]\<rparr>)
     = u2"
    by (simp add: make_entry_def parse_asset_name_def middle_def split_def Release_new_def)
qed

theorem first_matching_asset_witness:
  "download_url (make_entry ''linux64'' True example_release_2_1) =
     ''https://example.org/v2.1/linux64-opencl'' \<and>
   download_url (make_entry ''linux64'' False example_release_2_1) =
     ''https://example.org/v2.1/linux64'' \<and>
   download_url (make_entry ''win64'' True example_release_2_1) = []"
proof -
  have 1: "List.find (asset_matches ''linux64'' True) (assets example_release_2_1) =
    Some \<lparr>asset_name = ''BlendLuxCore-v2.1-linux64-opencl.zip'',
          browser_download_url = ''https://example.org/v2.1/linux64-opencl''\<rparr>"
    by (simp add: example_defs eval_defs)
  have 2: "List.find (asset_matches ''linux64'' False) (assets example_release_2_1) =
    Some \<lparr>asset_name = ''BlendLuxCore-v2.1-linux64.zip'',
          browser_download_url = ''https://example.org/v2.1/linux64''\<rparr>"
    by (simp add: example_defs eval_defs)
  have 3: "List.find (asset_matches ''win64'' True) (assets example_release_2_1) = None"
    by (simp add: example_defs eval_defs)
  show ?thesis
    using first_matching_asset [of "''linux64''" True example_release_2_1]
      first_matching_asset [of "''linux64''" False example_release_2_1]
      first_matching_asset [of "''win64''" True example_release_2_1]
    unfolding 1 2 3 by simp
qed

subsection \<open>The release loop and invoke\<close>

lemma set_update_subset: "set (AList.update k v al) \<subseteq> insert (k, v) (set al)"
  by (induction al) auto

lemma release_loop_entries:
  "(k, e) \<in> set (release_loop cs co feed acc) \<Longrightarrow>
     (k, e) \<in> set acc \<or>
     (\<exists>info \<in> set feed. e = make_entry cs co info \<and> k = version_string e \<and> download_url e \<noteq> [])"
proof (induction feed arbitrary: acc)
  case Nil
  then show ?case by simp
next
  case (Cons info feed)
  let ?e = "make_entry cs co info"
  let ?acc = "if download_url ?e \<noteq> [] then AList.update (version_string ?e) ?e acc else acc"
  from Cons.prems have "(k, e) \<in> set (release_loop cs co feed ?acc)"
    by (simp add: Let_def)
  from Cons.IH [OF this] show ?case
  proof
    assume "(k, e) \<in> set ?acc"
    then have "(k, e) \<in> set acc \<or> (download_url ?e \<noteq> [] \<and> (k, e) = (version_string ?e, ?e))"
      using set_update_subset [of "version_string ?e" ?e acc] by (auto split: if_splits)
    then show ?thesis by auto
  next
    assume "\<exists>info\<in>set feed. e = make_entry cs co info \<and> k = version_string e \<and> download_url e \<noteq> []"
    then show ?thesis by auto
  qed
qed

lemma release_loop_distinct:
  "distinct (map fst acc) \<Longrightarrow> distinct (map fst (release_loop cs co feed acc))"
  by (induction feed arbitrary: acc) (auto simp: Let_def distinct_update)

lemma release_loop_map_of:
  "map_of (release_loop cs co feed acc) v =
     (case List.find (\<lambda>info. version_string (make_entry cs co info) = v \<and>
                              download_url (make_entry cs co info) \<noteq> []) (rev feed) of
        None \<Rightarrow> map_of acc v
      | Some info \<Rightarrow> Some (make_entry cs co info))"
proof (induction feed arbitrary: acc)
  case Nil
  then show ?case by simp
next
  case (Cons info feed)
  show ?case
    by (simp add: Let_def Cons.IH update_conv' find_app split: option.splits)
qed

lemma filter_key_distinct:
  "distinct (map fst al) \<Longrightarrow> map_of al k = Some e \<Longrightarrow> filter (\<lambda>(k', e'). k' = k) al = [(k, e)]"
proof (induction al)
  case Nil
  then show ?case by simp
next
  case (Cons p al)
  obtain k' e' where p: "p = (k', e')" by (cases p)
  show ?case
  proof (cases "k' = k")
    case True
    with Cons.prems p have "e' = e" by simp
    moreover from Cons.prems p True have "k \<notin> fst ` set al" by simp
    then have "filter (\<lambda>(k', e'). k' = k) al = []"
      by (force simp: filter_empty_conv)
    ultimately show ?thesis using p True by simp
  next
    case False
    with Cons p show ?thesis by simp
  qed
qed

lemma invoke_state_cases:
  "state (invoke env old) = [] \<or>
   (\<exists>feed cs. requests_get env = Response True (Some feed) \<and>
      map_of system_mapping (platform_system env) = Some cs \<and>
      state (invoke env old) = release_loop cs (\<not> luxrays_disable_opencl env) feed [])"
  by (auto simp: invoke_def Let_def split: http_result.splits option.splits)

lemma invoke_state_ok:
  "requests_get env = Response True (Some feed) \<Longrightarrow>
   map_of system_mapping (platform_system env) = Some cs \<Longrightarrow>
   state (invoke env old) = release_loop cs (\<not> luxrays_disable_opencl env) feed []"
  by (simp add: invoke_def)

text \<open>
  Claim C3. Whatever the feed, every entry of the dictionary that \<open>invoke\<close> leaves
  behind has a non-empty \<open>download_url\<close>, which is the URL of a matching asset of the
  release it was built from, and is stored under its version string; and a release of
  the feed none of whose assets matches the current system and OpenCL flag is not among
  the values of the dictionary.
\<close>

theorem catalog_only_matched:
  "(\<forall>(k, e) \<in> set (state (invoke env old)).
      download_url e \<noteq> [] \<and> k = version_string e \<and>
      (\<exists>feed cs info a.
         requests_get env = Response True (Some feed) \<and>
         map_of system_mapping (platform_system env) = Some cs \<and>
         info \<in> set feed \<and> e = make_entry cs (\<not> luxrays_disable_opencl env) info \<and>
         a \<in> set (assets info) \<and> asset_matches cs (\<not> luxrays_disable_opencl env) a \<and>
         download_url e = browser_download_url a)) \<and>
   (\<forall>feed cs info.
      requests_get env = Response True (Some feed) \<and>
      map_of system_mapping (platform_system env) = Some cs \<and>
      info \<in> set feed \<and>
      (\<forall>a \<in> set (assets info). \<not> asset_matches cs (\<not> luxrays_disable_opencl env) a) \<longrightarrow>
      make_entry cs (\<not> luxrays_disable_opencl env) info \<notin> snd ` set (state (invoke env old)))"
proof -
  have entries: "download_url e \<noteq> [] \<and> k = version_string e \<and>
      (\<exists>feed cs info a.
         requests_get env = Response True (Some feed) \<and>
         map_of system_mapping (platform_system env) = Some cs \<and>
         info \<in> set feed \<and> e = make_entry cs (\<not> luxrays_disable_opencl env) info \<and>
         a \<in> set (assets info) \<and> asset_matches cs (\<not> luxrays_disable_opencl env) a \<and>
         download_url e = browser_download_url a)"
    if mem: "(k, e) \<in> set (state (invoke env old))" for k e
  proof -
    from mem invoke_state_cases [of env old] obtain feed cs where
      env: "requests_get env = Response True (Some feed)"
        "map_of system_mapping (platform_system env) = Some cs" and
      st: "state (invoke env old) = release_loop cs (\<not> luxrays_disable_opencl env) feed []"
      by auto
    from mem st release_loop_entries [of k e cs "\<not> luxrays_disable_opencl env" feed "[]"]
    obtain info where info: "info \<in> set feed"
      "e = make_entry cs (\<not> luxrays_disable_opencl env) info"
      "k = version_string e" "download_url e \<noteq> []"
      by auto
    from info(2,4) make_entry_url_matched [of cs "\<not> luxrays_disable_opencl env" info]
    obtain a where "a \<in> set (assets info)" "asset_matches cs (\<not> luxrays_disable_opencl env) a"
      "download_url e = browser_download_url a"
      by auto
    with env info show ?thesis by blast
  qed
  have absent: "make_entry cs (\<not> luxrays_disable_opencl env) info \<notin> snd ` set (state (invoke env old))"
    if "\<forall>a \<in> set (assets info). \<not> asset_matches cs (\<not> luxrays_disable_opencl env) a" for cs info
  proof
    assume "make_entry cs (\<not> luxrays_disable_opencl env) info \<in> snd ` set (state (invoke env old))"
    then obtain k where "(k, make_entry cs (\<not> luxrays_disable_opencl env) info) \<in> set (state (invoke env old))"
      by auto
    from entries [OF this] have "download_url (make_entry cs (\<not> luxrays_disable_opencl env) info) \<noteq> []"
      by simp
    with make_entry_no_match [OF that] show False by simp
  qed
  from entries absent show ?thesis by blast
qed

theorem catalog_only_matched_witness:
  "state (invoke (example_invoke_env [example_release_2_1, example_release_old]) []) =
     [(''v2.1'', \<lparr>version_string = ''v2.1'', is_prerelease = False,
                 download_url = ''https://example.org/v2.1/linux64-opencl''\<rparr>)] \<and>
   make_entry ''linux64'' True example_release_old \<notin>
     snd ` set (state (invoke (example_invoke_env [example_release_2_1, example_release_old]) []))"
proof -
  let ?env = "example_invoke_env [example_release_2_1, example_release_old]"
  have st: "state (invoke ?env []) =
     [(''v2.1'', \<lparr>version_string = ''v2.1'', is_prerelease = False,
                 download_url = ''https://example.org/v2.1/linux64-opencl''\<rparr>)]"
    by (simp add: example_defs eval_defs)
  have env: "requests_get ?env = Response True (Some [example_release_2_1, example_release_old])"
    "map_of system_mapping (platform_system ?env) = Some ''linux64''"
    "luxrays_disable_opencl ?env = False"
    by (simp_all add: example_invoke_env_def system_mapping_def)
  have none: "\<forall>a \<in> set (assets example_release_old). \<not> asset_matches ''linux64'' True a"
    by (simp add: example_defs eval_defs)
  from catalog_only_matched [of ?env "[]"] env none
  have "make_entry ''linux64'' True example_release_old \<notin> snd ` set (state (invoke ?env []))"
    by simp
  with st show ?thesis by simp
qed

lemma has_match_url:
  assumes "\<exists>a \<in> set (assets info). asset_matches cs co a"
    and "\<forall>a \<in> set (assets info). browser_download_url a \<noteq> []"
  shows "download_url (make_entry cs co info) \<noteq> []"
proof (cases "List.find (asset_matches cs co) (assets info)")
  case None
  with assms(1) show ?thesis by (simp add: find_None_iff)
next
  case (Some a)
  from find_SomeD [OF Some] assms(2) Some show ?thesis by (simp add: make_entry_url)
qed

lemma later_entry_overwrites_aux:
  assumes "requests_get env = Response True (Some (xs @ r1 # ys @ r2 # zs))"
    and "map_of system_mapping (platform_system env) = Some cs"
    and "co = (\<not> luxrays_disable_opencl env)"
    and "version_string (make_entry cs co r2) = v" and "download_url (make_entry cs co r2) \<noteq> []"
    and "\<forall>z \<in> set zs. \<not> (version_string (make_entry cs co z) = v \<and> download_url (make_entry cs co z) \<noteq> [])"
  shows "filter (\<lambda>(k, e). k = v) (state (invoke env old)) = [(v, make_entry cs co r2)] \<and>
         filter (\<lambda>(k, e). version_string e = v) (state (invoke env old)) = [(v, make_entry cs co r2)]"
proof -
  let ?P = "\<lambda>info. version_string (make_entry cs co info) = v \<and> download_url (make_entry cs co info) \<noteq> []"
  have st: "state (invoke env old) = release_loop cs co (xs @ r1 # ys @ r2 # zs) []"
    using assms(1-3) by (simp add: invoke_state_ok)
  have "List.find ?P (rev zs) = None"
    using assms(6) by (simp add: find_None_iff)
  then have "List.find ?P (rev (xs @ r1 # ys @ r2 # zs)) = Some r2"
    using assms(4,5) by (simp add: find_app)
  then have look: "map_of (state (invoke env old)) v = Some (make_entry cs co r2)"
    by (simp add: st release_loop_map_of)
  have dist: "distinct (map fst (state (invoke env old)))"
    by (simp add: st release_loop_distinct)
  have keys: "\<forall>(k, e) \<in> set (state (invoke env old)). k = version_string e"
    using release_loop_entries [of _ _ cs co "xs @ r1 # ys @ r2 # zs" "[]"] st by fastforce
  then have "filter (\<lambda>(k, e). version_string e = v) (state (invoke env old)) =
      filter (\<lambda>(k, e). k = v) (state (invoke env old))"
    by (intro filter_cong) auto
  with filter_key_distinct [OF dist look] show ?thesis by simp
qed

text \<open>
  Claim C10. The dictionary is keyed by version string: when two entries of the feed
  give the same version string \<open>v\<close> and both have a matching asset, no entry that
  follows the second having both, then the dictionary holds exactly one record under
  \<open>v\<close>, and exactly one record whose version string is \<open>v\<close>: the one built from the
  later entry. The download URLs of the feed are taken to be non-empty, so that a
  matching asset gives the entry a URL.
\<close>

theorem later_entry_overwrites:
  assumes feed: "requests_get env = Response True (Some (xs @ r1 # ys @ r2 # zs))"
    and system: "map_of system_mapping (platform_system env) = Some cs"
    and flag: "co = (\<not> luxrays_disable_opencl env)"
    and urls: "\<forall>r \<in> set (xs @ r1 # ys @ r2 # zs). \<forall>a \<in> set (assets r). browser_download_url a \<noteq> []"
    and same: "replace (name r1) ''BlendLuxCore '' [] = v" "replace (name r2) ''BlendLuxCore '' [] = v"
    and matched: "\<exists>a \<in> set (assets r1). asset_matches cs co a" "\<exists>a \<in> set (assets r2). asset_matches cs co a"
    and last: "\<forall>z \<in> set zs. replace (name z) ''BlendLuxCore '' [] = v \<longrightarrow>
                 (\<forall>a \<in> set (assets z). \<not> asset_matches cs co a)"
  shows "filter (\<lambda>(k, e). k = v) (state (invoke env old)) = [(v, make_entry cs co r2)] \<and>
         filter (\<lambda>(k, e). version_string e = v) (state (invoke env old)) = [(v, make_entry cs co r2)]"
proof (rule later_entry_overwrites_aux [OF feed system flag])
  show "version_string (make_entry cs co r2) = v"
    using same(2) by (simp add: make_entry_version)
  show "download_url (make_entry cs co r2) \<noteq> []"
    using matched(2) urls by (intro has_match_url) auto
  show "\<forall>z \<in> set zs. \<not> (version_string (make_entry cs co z) = v \<and> download_url (make_entry cs co z) \<noteq> [])"
    using last make_entry_no_match [of _ cs co] by (auto simp: make_entry_version)
qed

theorem later_entry_overwrites_witness:
  "filter (\<lambda>(k, e). k = ''v2.1'')
     (state (invoke (example_invoke_env
        [example_release_2_1, example_release_old, example_release_2_1_again]) []))
   = [(''v2.1'', \<lparr>version_string = ''v2.1'', is_prerelease = True,
                  download_url = ''https://example.org/v2.1/rebuilt''\<rparr>)]"
proof -
  let ?env = "example_invoke_env [example_release_2_1, example_release_old, example_release_2_1_again]"
  have feed: "requests_get ?env =
      Response True (Some ([] @ example_release_2_1 # [example_release_old] @ example_release_2_1_again # []))"
    by (simp add: example_invoke_env_def)
  have system: "map_of system_mapping (platform_system ?env) = Some ''linux64''"
    by (simp add: example_invoke_env_def system_mapping_def)
  have flag: "True = (\<not> luxrays_disable_opencl ?env)"
    by (simp add: example_invoke_env_def)
  have urls: "\<forall>r \<in> set ([] @ example_release_2_1 # [example_release_old] @ example_release_2_1_again # []).
      \<forall>a \<in> set (assets r). browser_download_url a \<noteq> []"
    by (simp add: example_defs)
  have same: "replace (name example_release_2_1) ''BlendLuxCore '' [] = ''v2.1''"
    "replace (name example_release_2_1_again) ''BlendLuxCore '' [] = ''v2.1''"
    by (simp_all add: example_defs)
  have matched: "\<exists>a \<in> set (assets example_release_2_1). asset_matches ''linux64'' True a"
    "\<exists>a \<in> set (assets example_release_2_1_again). asset_matches ''linux64'' True a"
    by (simp_all add: example_defs eval_defs)
  have last: "\<forall>z \<in> set []. replace (name z) ''BlendLuxCore '' [] = ''v2.1'' \<longrightarrow>
      (\<forall>a \<in> set (assets z). \<not> asset_matches ''linux64'' True a)"
    by simp
  have entry: "make_entry ''linux64'' True example_release_2_1_again =
      \<lparr>version_string = ''v2.1'', is_prerelease = True,
       download_url = ''https://example.org/v2.1/rebuilt''\<rparr>"
    by (simp add: example_defs eval_defs)
  from later_entry_overwrites [OF feed system flag urls same matched last, of "[]"]
  show ?thesis by (simp add: entry)
qed

section \<open>Properties of the drop-down list\<close>

lemma items_loop_catalog:
  "items_loop cur i (map snd al) items =
     items @ map (\<lambda>(j, k, release).
            (version_string release, version_string release,
             (if version_string release = cur then '' (installed)''
              else if is_prerelease release then '' (unstable)''
              else []),
             (if version_string release = cur then ''FILE_TICK''
              else if is_prerelease release then ''ERROR''
              else ''NONE''),
             j))
         (enumerate i al)"
  by (induction al arbitrary: i items) auto

lemma map_fst_enumerate:
  "map (fst \<circ> (\<lambda>(j, k, r). (f r, g j r))) (enumerate i al) = map (\<lambda>(k, r). f r) al"
  by (induction al arbitrary: i) auto

text \<open>
  Claim C9. For every dictionary and installed version the callback yields one item per
  entry, in the order of the dictionary and numbered from 0. The annotation of an item
  is decided in this order: the version string is the installed version, then
  \<open>(installed)\<close> with the tick icon, also for a prerelease; otherwise the release is a
  prerelease, then \<open>(unstable)\<close> with the error icon; otherwise no annotation and no
  icon.
\<close>

theorem release_items:
  "release_items_callback info releases =
     map (\<lambda>(i, k, release).
            (version_string release, version_string release,
             (if version_string release = get_current_version info then '' (installed)''
              else if is_prerelease release then '' (unstable)''
              else []),
             (if version_string release = get_current_version info then ''FILE_TICK''
              else if is_prerelease release then ''ERROR''
              else ''NONE''),
             i))
         (enumerate 0 releases) \<and>
   length (release_items_callback info releases) = length releases \<and>
   map fst (release_items_callback info releases) = map (\<lambda>(k, release). version_string release) releases"
  by (simp add: release_items_callback_def items_loop_catalog map_fst_enumerate)

theorem release_items_witness:
  "get_current_version example_bl_info = ''v2.1beta2'' \<and>
   release_items_callback example_bl_info example_catalog =
     [(''v2.2alpha0'', ''v2.2alpha0'', '' (unstable)'', ''ERROR'', 0),
      (''v2.1beta2'', ''v2.1beta2'', '' (installed)'', ''FILE_TICK'', 1),
      (''v2.0'', ''v2.0'', [], ''NONE'', 2)]"
proof -
  have cur: "get_current_version example_bl_info = ''v2.1beta2''"
    by (simp add: get_current_version_def example_bl_info_def format_d_def)
  show ?thesis
    using release_items [of example_bl_info example_catalog]
    by (simp add: cur example_catalog_def enumerate_eq_zip upt_rec)
qed

section \<open>Properties of the files\<close>

subsection \<open>Paths\<close>

lemma ancestors_mem:
  assumes "d \<noteq> []" and "prefix (d @ ''/'') q"
  shows "d \<in> set (ancestors q)"
proof -
  from assms(2) obtain r where q: "q = d @ ''/'' @ r"
    by (auto simp: prefix_def)
  have "take (length d) q = d" "q ! length d = CHR ''/''" "1 \<le> length d" "length d < length q"
    using assms(1) by (simp_all add: q nth_append Suc_le_eq)
  then show ?thesis
    unfolding ancestors_def by (auto simp: image_iff intro!: bexI [of _ "length d"])
qed

lemma nothing_under_missing:
  assumes "parents_exist fs" and "\<not> path_exists fs b" and "b \<noteq> []" and "(q, n) \<in> set fs"
  shows "\<not> under b q"
proof
  assume u: "under b q"
  show False
  proof (cases "q = b")
    case True
    with assms(4) have "b \<in> fst ` set fs" by force
    with assms(2) show False by (simp add: path_exists_def map_of_eq_None_iff)
  next
    case False
    with u have "prefix (b @ ''/'') q" by (simp add: under_def)
    from ancestors_mem [OF assms(3) this] assms(1,4) have "isdir fs b"
      by (auto simp: parents_exist_def list_all_iff)
    with assms(2) show False by (simp add: isdir_def path_exists_def)
  qed
qed

text \<open>A path that continues \<open>root\<close> with a character other than the slash is a sibling.\<close>

lemma sibling_not_under:
  assumes "c \<noteq> CHR ''/''" and "under (root @ c # rest) x"
  shows "\<not> under root x"
proof -
  from assms(2) have "prefix (root @ [c]) x"
    by (auto simp: under_def prefix_def)
  then obtain r where "x = root @ c # r" by (auto simp: prefix_def)
  with assms(1) show ?thesis by (auto simp: under_def prefix_def)
qed

lemma root_not_under_sibling: "\<not> under (root @ c # rest) root"
  by (auto simp: under_def prefix_def)

lemma under_refl: "under d d"
  by (simp add: under_def)

lemma under_rename:
  "under src q \<Longrightarrow> under dst (dst @ drop (length src) q)"
  by (auto simp: under_def prefix_def)

lemma rename_back_path:
  "under src q \<Longrightarrow> src @ drop (length dst) (dst @ drop (length src) q) = q"
  by (auto simp: under_def prefix_def)

subsection \<open>Renaming, writing and removing\<close>

lemma rename_back:
  assumes "\<forall>(q, n) \<in> set fs. \<not> under dst q"
    and "\<forall>x. under dst x \<longrightarrow> \<not> under src x"
  shows "rename (rename fs src dst) dst src = fs"
  using assms(1)
proof (induction fs)
  case Nil
  show ?case by (simp add: rename_def)
next
  case (Cons p fs)
  obtain q n where p: "p = (q, n)" by (cases p)
  from Cons have IH: "rename (rename fs src dst) dst src = fs" by simp
  from Cons.prems p have nd: "\<not> under dst q" by simp
  show ?case
  proof (cases "under src q")
    case True
    then show ?thesis
      using IH p under_rename [OF True, of dst] rename_back_path [OF True, of dst]
      by (simp add: rename_def)
  next
    case False
    with nd IH p show ?thesis by (simp add: rename_def)
  qed
qed

lemma rename_not_under_src:
  assumes "\<forall>x. under dst x \<longrightarrow> \<not> under src x" and "(q, n) \<in> set (rename fs src dst)"
  shows "\<not> under src q"
proof -
  from assms(2) obtain q0 where "(q0, n) \<in> set fs"
    "q = (if under src q0 then dst @ drop (length src) q0 else q0)"
    by (auto simp: rename_def split: if_splits)
  with assms(1) under_rename [of src q0 dst] show ?thesis
    by (auto split: if_splits)
qed

lemma map_of_rename_other:
  assumes "\<not> under src p" and "\<not> under dst p"
  shows "map_of (rename fs src dst) p = map_of fs p"
proof (induction fs)
  case Nil
  show ?case by (simp add: rename_def)
next
  case (Cons e fs)
  obtain q n where e: "e = (q, n)" by (cases e)
  from Cons have IH: "map_of (rename fs src dst) p = map_of fs p" .
  show ?case
  proof (cases "under src q")
    case True
    from under_rename [OF True, of dst] assms(2) have "dst @ drop (length src) q \<noteq> p" by auto
    moreover from True assms(1) have "q \<noteq> p" by auto
    ultimately show ?thesis using IH e True by (simp add: rename_def)
  next
    case False
    with IH e show ?thesis by (simp add: rename_def)
  qed
qed

lemma map_of_rename_dst:
  assumes "\<forall>(q, n) \<in> set fs. \<not> under dst q"
  shows "map_of (rename fs src dst) dst = map_of fs src"
  using assms
proof (induction fs)
  case Nil
  show ?case by (simp add: rename_def)
next
  case (Cons e fs)
  obtain q n where e: "e = (q, n)" by (cases e)
  from Cons have IH: "map_of (rename fs src dst) dst = map_of fs src" by simp
  from Cons.prems e have nd: "q \<noteq> dst" by (auto simp: under_def)
  show ?case
  proof (cases "q = src")
    case True
    with e show ?thesis by (simp add: rename_def under_def)
  next
    case False
    show ?thesis
    proof (cases "under src q")
      case True
      with False obtain r where "q = src @ ''/'' @ r" by (auto simp: under_def prefix_def)
      then have "dst @ drop (length src) q \<noteq> dst" by simp
      with IH e True False show ?thesis by (simp add: rename_def)
    next
      case False
      with IH e nd \<open>q \<noteq> src\<close> show ?thesis by (simp add: rename_def)
    qed
  qed
qed

lemma filter_update_out:
  "\<not> P k \<Longrightarrow> filter (\<lambda>(q, n). P q) (AList.update k v al) = filter (\<lambda>(q, n). P q) al"
  by (induction al) auto

lemma filter_all: "\<forall>x \<in> set xs. P x \<Longrightarrow> filter P xs = xs"
  by (induction xs) auto

lemma map_of_update_other:
  "k \<noteq> p \<Longrightarrow> map_of (AList.update k v al) p = map_of al p"
  by (simp add: update_conv')

lemma extract_members_filter:
  assumes "list_all (\<lambda>(member, n). under root (join target member)) written"
  shows "filter (\<lambda>(q, n). \<not> under root q) (extract_members fs target written) =
         filter (\<lambda>(q, n). \<not> under root q) fs"
  using assms
proof (induction written arbitrary: fs)
  case Nil
  show ?case by simp
next
  case (Cons w written)
  obtain member n where w: "w = (member, n)" by (cases w)
  from Cons.prems w have u: "under root (join target member)" by simp
  from Cons.prems have "list_all (\<lambda>(member, n). under root (join target member)) written" by simp
  from Cons.IH [OF this] show ?case
    using filter_update_out [of "\<lambda>q. \<not> under root q" "join target member" n fs] u w by simp
qed

lemma extract_members_lookup_other:
  assumes "list_all (\<lambda>(member, n). under root (join target member)) written"
    and "\<not> under root p"
  shows "map_of (extract_members fs target written) p = map_of fs p"
  using assms(1)
proof (induction written arbitrary: fs)
  case Nil
  show ?case by simp
next
  case (Cons w written)
  obtain member n where w: "w = (member, n)" by (cases w)
  from Cons.prems w assms(2) have ne: "join target member \<noteq> p" by auto
  from Cons.prems have "list_all (\<lambda>(member, n). under root (join target member)) written" by simp
  from Cons.IH [OF this] show ?case
    using map_of_update_other [OF ne] w by simp
qed

lemma extract_members_root_dir:
  assumes "list_all (\<lambda>(member, n). join target member = root \<longrightarrow> n = Dir) written"
    and "isdir fs root \<or> list_ex (\<lambda>(member, n). join target member = root) written"
  shows "isdir (extract_members fs target written) root"
  using assms
proof (induction written arbitrary: fs)
  case Nil
  then show ?case by simp
next
  case (Cons w written)
  obtain member n where w: "w = (member, n)" by (cases w)
  from Cons.prems(1) have rest: "list_all (\<lambda>(member, n). join target member = root \<longrightarrow> n = Dir) written"
    by simp
  show ?case
  proof (cases "join target member = root")
    case True
    with Cons.prems(1) w have "n = Dir" by simp
    with True have "isdir (AList.update (join target member) n fs) root"
      by (simp add: isdir_def update_conv')
    with Cons.IH [OF rest] w show ?thesis by simp
  next
    case False
    with Cons.prems(2) w have
      "isdir (AList.update (join target member) n fs) root \<or>
       list_ex (\<lambda>(member, n). join target member = root) written"
      by (auto simp: isdir_def update_conv')
    with Cons.IH [OF rest] w show ?thesis by simp
  qed
qed

lemma writes_below_under:
  "writes_below root target written \<Longrightarrow>
   list_all (\<lambda>(member, n). under root (join target member)) written"
  by (auto simp: writes_below_def under_def list_all_iff)

lemma writes_below_dir:
  "writes_below root target written \<Longrightarrow>
   list_all (\<lambda>(member, n). join target member = root \<longrightarrow> n = Dir) written"
  by (auto simp: writes_below_def list_all_iff)

lemma writes_below_root:
  "writes_below root target written \<Longrightarrow> written \<noteq> [] \<Longrightarrow>
   list_ex (\<lambda>(member, n). join target member = root) written"
  by (auto simp: writes_below_def)


lemma extract_members_filter_gen:
  assumes "list_all (\<lambda>(member, n). \<not> P (join target member)) written"
  shows "filter (\<lambda>(q, n). P q) (extract_members fs target written) = filter (\<lambda>(q, n). P q) fs"
  using assms
proof (induction written arbitrary: fs)
  case Nil
  show ?case by simp
next
  case (Cons w written)
  obtain member n where w: "w = (member, n)" by (cases w)
  from Cons.prems w have u: "\<not> P (join target member)" by simp
  from Cons.prems have "list_all (\<lambda>(member, n). \<not> P (join target member)) written" by simp
  from Cons.IH [OF this] show ?case
    using filter_update_out [of P "join target member" n fs] u w by simp
qed

lemma extract_members_lookup_gen:
  assumes "list_all (\<lambda>(member, n). join target member \<noteq> p) written"
  shows "map_of (extract_members fs target written) p = map_of fs p"
  using assms
proof (induction written arbitrary: fs)
  case Nil
  show ?case by simp
next
  case (Cons w written)
  obtain member n where w: "w = (member, n)" by (cases w)
  from Cons.prems w have ne: "join target member \<noteq> p" by simp
  from Cons.prems have "list_all (\<lambda>(member, n). join target member \<noteq> p) written" by simp
  from Cons.IH [OF this] show ?case
    using map_of_update_other [OF ne] w by simp
qed

lemma map_of_filter_key:
  "map_of (filter (\<lambda>(q, n). P q) xs) k = (if P k then map_of xs k else None)"
  by (induction xs) auto

lemma filter_under_rename:
  assumes "\<forall>(q, n) \<in> set fs. \<not> under dst q"
    and "\<forall>x. under dst x \<longrightarrow> \<not> under src x"
  shows "filter (\<lambda>(q, n). under dst q) (rename fs src dst) =
         map (\<lambda>(q, n). (dst @ drop (length src) q, n)) (filter (\<lambda>(q, n). under src q) fs)"
  using assms(1)
proof (induction fs)
  case Nil
  show ?case by (simp add: rename_def)
next
  case (Cons p fs)
  obtain q n where p: "p = (q, n)" by (cases p)
  from Cons have IH: "filter (\<lambda>(q, n). under dst q) (rename fs src dst) =
         map (\<lambda>(q, n). (dst @ drop (length src) q, n)) (filter (\<lambda>(q, n). under src q) fs)"
    by simp
  from Cons.prems p have nd: "\<not> under dst q" by simp
  show ?case
  proof (cases "under src q")
    case True
    with IH p under_rename [OF True, of dst] show ?thesis
      by (simp add: rename_def)
  next
    case False
    with IH p nd show ?thesis by (simp add: rename_def)
  qed
qed

lemma rename_there_and_back:
  assumes "\<forall>(q, n) \<in> set ys. under src q"
  shows "map (\<lambda>(q, n). (src @ drop (length dst) q, n))
           (map (\<lambda>(q, n). (dst @ drop (length src) q, n)) ys) = ys"
  using assms
proof (induction ys)
  case Nil
  show ?case by simp
next
  case (Cons p ys)
  obtain q n where p: "p = (q, n)" by (cases p)
  from Cons.prems p have u: "under src q" by simp
  from Cons have IH: "map (\<lambda>(q, n). (src @ drop (length dst) q, n))
           (map (\<lambda>(q, n). (dst @ drop (length src) q, n)) ys) = ys"
    by simp
  have "src @ drop (length dst) (dst @ drop (length src) q) = q"
    by (rule rename_back_path [OF u])
  with IH p show ?case by simp
qed




lemma writes_spare_backup:
  "writes_spare root backup target written \<Longrightarrow>
   list_all (\<lambda>(member, n). \<not> under backup (join target member)) written"
  by (auto simp: writes_spare_def list_all_iff)

lemma writes_spare_dir:
  "writes_spare root backup target written \<Longrightarrow>
   list_all (\<lambda>(member, n). join target member = root \<longrightarrow> n = Dir) written"
  by (auto simp: writes_spare_def list_all_iff)

lemma writes_spare_root:
  "writes_spare root backup target written \<Longrightarrow>
   list_ex (\<lambda>(member, n). under root (join target member)) written \<Longrightarrow>
   list_ex (\<lambda>(member, n). join target member = root) written"
  by (simp add: writes_spare_def)

subsection \<open>The backup path\<close>

lemma backup_loop_shape:
  "\<exists>k. backup_loop fs p = p @ replicate k CHR ''b'' \<and>
       \<not> path_exists fs (p @ replicate k CHR ''b'') \<and>
       (\<forall>j<k. path_exists fs (p @ replicate j CHR ''b''))"
proof (induction fs p rule: backup_loop.induct)
  case (1 fs p)
  show ?case
  proof (cases "path_exists fs p")
    case False
    then have "backup_loop fs p = p @ replicate 0 CHR ''b'' \<and>
       \<not> path_exists fs (p @ replicate 0 CHR ''b'') \<and>
       (\<forall>j<0. path_exists fs (p @ replicate j CHR ''b''))"
      by (simp add: backup_loop.simps)
    then show ?thesis by (rule exI)
  next
    case True
    from "1.IH" [OF True] obtain k where k:
      "backup_loop fs (p @ ''b'') = (p @ ''b'') @ replicate k CHR ''b''"
      "\<not> path_exists fs ((p @ ''b'') @ replicate k CHR ''b'')"
      "\<forall>j<k. path_exists fs ((p @ ''b'') @ replicate j CHR ''b'')"
      by blast
    have "\<forall>j<Suc k. path_exists fs (p @ replicate j CHR ''b'')"
    proof (intro allI impI)
      fix j assume "j < Suc k"
      show "path_exists fs (p @ replicate j CHR ''b'')"
      proof (cases j)
        case 0
        with True show ?thesis by simp
      next
        case (Suc i)
        with \<open>j < Suc k\<close> k(3) show ?thesis by simp
      qed
    qed
    with k(1,2) True have "backup_loop fs p = p @ replicate (Suc k) CHR ''b'' \<and>
       \<not> path_exists fs (p @ replicate (Suc k) CHR ''b'') \<and>
       (\<forall>j<Suc k. path_exists fs (p @ replicate j CHR ''b''))"
      by (simp add: backup_loop.simps [of fs p])
    then show ?thesis by (rule exI)
  qed
qed

lemma backup_path_free: "\<not> path_exists fs (backup_path env fs)"
  using backup_loop_shape [of fs "blendluxcore_dir env @ ''_backup''"]
  by (auto simp: backup_path_def)

lemma backup_path_sibling:
  "\<exists>rest. backup_path env fs = blendluxcore_dir env @ CHR ''_'' # rest"
  using backup_loop_shape [of fs "blendluxcore_dir env @ ''_backup''"]
  by (auto simp: backup_path_def)

lemma example_dirs:
  "blendluxcore_dir example_execute_env = ''/home/u/addons/BlendLuxCore''"
  "addon_dir example_execute_env = ''/home/u/addons''"
  by (simp_all add: example_execute_env_def blendluxcore_dir_def addon_dir_def dirname_def rstrip_def)

lemma example_backup_path:
  "backup_path example_execute_env example_fs_downloaded = ''/home/u/addons/BlendLuxCore_backupb''"
  by (simp add: backup_path_def example_dirs backup_loop.simps path_exists_def
      example_fs_downloaded_def example_fs_def)

text \<open>
  Claim C8. The backup path is the path of the installation directory followed by
  \<open>_backup\<close> and then by as many characters \<open>b\<close> as it takes to reach a name that
  does not exist: every shorter candidate exists, the chosen one does not. Existence is
  what \<open>os.path.exists\<close> tests, which a directory of that name satisfies. In
  particular the path is \<open><root>_backup\<close> when that name is free, and it is
  \<open><root>_backupb\<close> when \<open><root>_backup\<close> exists and \<open><root>_backupb\<close> does
  not.
\<close>

theorem backup_path_suffix:
  "(\<exists>k. backup_path env fs = blendluxcore_dir env @ ''_backup'' @ replicate k CHR ''b'' \<and>
        \<not> path_exists fs (blendluxcore_dir env @ ''_backup'' @ replicate k CHR ''b'') \<and>
        (\<forall>j<k. path_exists fs (blendluxcore_dir env @ ''_backup'' @ replicate j CHR ''b''))) \<and>
   (\<not> path_exists fs (blendluxcore_dir env @ ''_backup'') \<longrightarrow>
      backup_path env fs = blendluxcore_dir env @ ''_backup'') \<and>
   (path_exists fs (blendluxcore_dir env @ ''_backup'') \<and>
    \<not> path_exists fs (blendluxcore_dir env @ ''_backupb'') \<longrightarrow>
      backup_path env fs = blendluxcore_dir env @ ''_backupb'')"
proof (intro conjI impI)
  show "\<exists>k. backup_path env fs = blendluxcore_dir env @ ''_backup'' @ replicate k CHR ''b'' \<and>
        \<not> path_exists fs (blendluxcore_dir env @ ''_backup'' @ replicate k CHR ''b'') \<and>
        (\<forall>j<k. path_exists fs (blendluxcore_dir env @ ''_backup'' @ replicate j CHR ''b''))"
    using backup_loop_shape [of fs "blendluxcore_dir env @ ''_backup''"]
    by (simp add: backup_path_def)
next
  assume "\<not> path_exists fs (blendluxcore_dir env @ ''_backup'')"
  then show "backup_path env fs = blendluxcore_dir env @ ''_backup''"
    by (simp add: backup_path_def backup_loop.simps)
next
  assume "path_exists fs (blendluxcore_dir env @ ''_backup'') \<and>
    \<not> path_exists fs (blendluxcore_dir env @ ''_backupb'')"
  then show "backup_path env fs = blendluxcore_dir env @ ''_backupb''"
    by (simp add: backup_path_def backup_loop.simps [of fs "blendluxcore_dir env @ ''_backup''"]
        backup_loop.simps [of fs "blendluxcore_dir env @ ''_backupb''"])
qed

theorem backup_path_suffix_witness:
  "path_exists example_fs ''/home/u/addons/BlendLuxCore_backup'' \<and>
   \<not> path_exists example_fs ''/home/u/addons/BlendLuxCore_backupb'' \<and>
   backup_path example_execute_env example_fs = ''/home/u/addons/BlendLuxCore_backupb''"
proof -
  have 1: "path_exists example_fs (blendluxcore_dir example_execute_env @ ''_backup'')"
    by (simp add: example_dirs path_exists_def example_fs_def)
  have 2: "\<not> path_exists example_fs (blendluxcore_dir example_execute_env @ ''_backupb'')"
    by (simp add: example_dirs path_exists_def example_fs_def)
  show ?thesis
    using backup_path_suffix [of example_execute_env example_fs] 1 2
    by (simp add: example_dirs)
qed

section \<open>Properties of execute\<close>

text \<open>
  Claim C2. Whenever the selected release is in the dictionary and its version string
  is the installed version, \<open>execute\<close> reports
  \<open>This is the currently installed version\<close>, returns \<open>CANCELLED\<close> and leaves the
  files exactly as they were, whatever the environment would have answered to a
  download or an extraction: none of them takes place.
\<close>

theorem same_version_is_noop:
  assumes "map_of releases selected_release = Some requested_release"
    and "version_string requested_release = get_current_version info"
  shows "execute env info releases selected_release fs =
           \<lparr>reports = [(''ERROR'', ''This is the currently installed version'')],
            status = CANCELLED, state = fs\<rparr>"
  using assms by (simp add: execute_def)

theorem same_version_is_noop_witness:
  "execute example_execute_env example_bl_info example_catalog ''v2.1beta2'' example_fs =
     \<lparr>reports = [(''ERROR'', ''This is the currently installed version'')],
      status = CANCELLED, state = example_fs\<rparr>"
proof -
  have 1: "map_of example_catalog ''v2.1beta2'' =
      Some \<lparr>version_string = ''v2.1beta2'', is_prerelease = True, download_url = ''u2''\<rparr>"
    by (simp add: example_catalog_def)
  have 2: "version_string \<lparr>version_string = ''v2.1beta2'', is_prerelease = True, download_url = ''u2''\<rparr>
      = get_current_version example_bl_info"
    by (simp add: get_current_version_def example_bl_info_def format_d_def)
  show ?thesis
    by (rule same_version_is_noop [OF 1 2])
qed




subsection \<open>Rollback\<close>

text \<open>
  When every write of the failed extraction went into the installation directory, the
  handler leaves the whole file system as it was before the update.
\<close>

lemma rollback_whole_fs:
  assumes root_dir: "isdir fs (blendluxcore_dir env)"
    and wf: "parents_exist fs"
    and zip: "map_of fs temp_zip_path = Some (File bytes)"
    and zip_out: "\<not> under (blendluxcore_dir env) temp_zip_path"
    and fail: "unzip env bytes = ExtractFailed e written"
    and caught: "is_Exception e"
    and below: "writes_below (blendluxcore_dir env) (addon_dir env) written"
  shows
    "(let root = blendluxcore_dir env;
          backup = backup_path env fs;
          moved = rename fs root backup;
          partial = extract_members moved (addon_dir env) written
      in move fs root backup = Inr moved \<and>
         try_extract env moved temp_zip_path (addon_dir env) backup = Inl (e, partial) \<and>
         (written \<noteq> [] \<longrightarrow> isdir partial root \<and> rmtree partial root = Inr moved) \<and>
         \<not> path_exists moved root \<and>
         rollback partial root backup = Inr fs \<and>
         replace_installation env fs temp_zip_path = Inr fs \<and>
         \<not> path_exists fs backup)"
proof -
  define root where "root = blendluxcore_dir env"
  define backup where "backup = backup_path env fs"
  define moved where "moved = rename fs root backup"
  define target where "target = addon_dir env"
  define partial where "partial = extract_members moved target written"
  from backup_path_sibling [of env fs] obtain rest where
    backup_eq: "backup = root @ CHR ''_'' # rest"
    by (auto simp: backup_def root_def)
  have free: "\<not> path_exists fs backup"
    by (simp add: backup_def backup_path_free)
  have sib: "\<forall>x. under backup x \<longrightarrow> \<not> under root x"
    using sibling_not_under [of "CHR ''_''" root rest] by (simp add: backup_eq)
  have ne: "root \<noteq> backup" "backup \<noteq> []"
    by (simp_all add: backup_eq)
  have not_into: "\<not> under root backup" "\<not> under backup root"
    using sib under_refl [of backup] root_not_under_sibling [of root "CHR ''_''" rest]
    by (auto simp: backup_eq)
  have clear: "\<forall>(q, n) \<in> set fs. \<not> under backup q"
    using nothing_under_missing [OF wf free ne(2)] by auto
  have root_exists: "path_exists fs root"
    using root_dir by (simp add: root_def isdir_def path_exists_def)
  have no_backup_dir: "\<not> isdir fs backup"
    using free by (simp add: isdir_def path_exists_def)

  have move1: "move fs root backup = Inr moved"
    using ne(1) no_backup_dir root_exists not_into(1) free
    by (simp add: move_def moved_def)

  have moved_clear: "\<forall>(q, n) \<in> set moved. \<not> under root q"
    using rename_not_under_src [OF sib] by (auto simp: moved_def)
  have moved_root: "\<not> path_exists moved root"
  proof
    assume "path_exists moved root"
    then obtain n where "(root, n) \<in> set moved"
      by (auto simp: path_exists_def dest: map_of_SomeD)
    with moved_clear under_refl [of root] show False by auto
  qed
  have moved_backup: "map_of moved backup = Some Dir"
    using map_of_rename_dst [OF clear, of root] root_dir
    by (simp add: moved_def root_def isdir_def)
  have zip_entry: "(temp_zip_path, File bytes) \<in> set fs"
    using zip by (rule map_of_SomeD)
  with clear have "\<not> under backup temp_zip_path" by auto
  with zip_out have moved_zip: "map_of moved temp_zip_path = Some (File bytes)"
    using map_of_rename_other [of root temp_zip_path backup fs] zip
    by (simp add: moved_def root_def)

  have tried: "try_extract env moved temp_zip_path target backup = Inl (e, partial)"
    by (simp add: try_extract_def moved_zip fail partial_def)

  have under_all: "list_all (\<lambda>(member, n). under root (join target member)) written"
    using writes_below_under [OF below] by (simp add: root_def target_def)
  have partial_backup: "map_of partial backup = Some Dir"
    using extract_members_lookup_other [OF under_all not_into(1)] moved_backup
    by (simp add: partial_def)
  have partial_filter: "filter (\<lambda>(q, n). \<not> under root q) partial = moved"
  proof -
    have "filter (\<lambda>(q, n). \<not> under root q) partial = filter (\<lambda>(q, n). \<not> under root q) moved"
      unfolding partial_def by (rule extract_members_filter [OF under_all])
    also have "\<dots> = moved"
      by (rule filter_all) (use moved_clear in auto)
    finally show ?thesis .
  qed
  have move2: "move moved backup root = Inr fs"
  proof -
    have "\<not> isdir moved root" using moved_root by (simp add: isdir_def path_exists_def)
    moreover have "path_exists moved backup" using moved_backup by (simp add: path_exists_def)
    ultimately have "move moved backup root = Inr (rename moved backup root)"
      using ne(1) not_into(2) moved_root by (simp add: move_def)
    also have "rename moved backup root = fs"
      unfolding moved_def by (rule rename_back [OF clear sib])
    finally show ?thesis .
  qed
  have written_case: "isdir partial root \<and> rmtree partial root = Inr moved" if "written \<noteq> []"
  proof -
    have "isdir partial root"
      unfolding partial_def
      using extract_members_root_dir [of target root written moved]
        writes_below_dir [OF below] writes_below_root [OF below that]
      by (simp add: root_def target_def)
    then show ?thesis by (simp add: rmtree_def isdir_def partial_filter)
  qed
  have rb: "rollback partial root backup = Inr fs"
  proof (cases "written = []")
    case True
    then have "partial = moved" by (simp add: partial_def)
    with moved_root move2 show ?thesis by (simp add: rollback_def)
  next
    case False
    from written_case [OF False] move2 show ?thesis
      by (simp add: rollback_def isdir_def path_exists_def)
  qed
  have "replace_installation env fs temp_zip_path = Inr fs"
    using move1 tried rb caught
    by (simp add: replace_installation_def root_def [symmetric] backup_def [symmetric]
        target_def [symmetric])
  with move1 tried written_case moved_root rb free show ?thesis
    by (simp add: Let_def root_def [symmetric] backup_def [symmetric] moved_def [symmetric]
        target_def [symmetric] partial_def [symmetric])
qed

text \<open>
  The general case: the extraction may also have written elsewhere, as long as it
  spared the backup and did not leave a regular file at the installation path.
\<close>

lemma rollback_general:
  assumes root_dir: "isdir fs (blendluxcore_dir env)"
    and wf: "parents_exist fs"
    and zip: "map_of fs temp_zip_path = Some (File bytes)"
    and zip_out: "\<not> under (blendluxcore_dir env) temp_zip_path"
    and fail: "unzip env bytes = ExtractFailed e written"
    and caught: "is_Exception e"
    and spare: "writes_spare (blendluxcore_dir env) (backup_path env fs) (addon_dir env) written"
  shows
    "(let root = blendluxcore_dir env;
          backup = backup_path env fs;
          moved = rename fs root backup;
          partial = extract_members moved (addon_dir env) written;
          kept = filter (\<lambda>(q, n). \<not> under root q) partial;
          final = rename kept backup root
      in move fs root backup = Inr moved \<and>
         try_extract env moved temp_zip_path (addon_dir env) backup = Inl (e, partial) \<and>
         (path_exists partial root \<longrightarrow> rmtree partial root = Inr kept) \<and>
         rollback partial root backup = Inr final \<and>
         replace_installation env fs temp_zip_path = Inr final \<and>
         \<not> path_exists final backup \<and>
         filter (\<lambda>(q, n). under backup q) final = [] \<and>
         filter (\<lambda>(q, n). under root q) final = filter (\<lambda>(q, n). under root q) fs)"
proof -
  define root where "root = blendluxcore_dir env"
  define backup where "backup = backup_path env fs"
  define moved where "moved = rename fs root backup"
  define target where "target = addon_dir env"
  define partial where "partial = extract_members moved target written"
  define kept where "kept = filter (\<lambda>(q, n). \<not> under root q) partial"
  define final where "final = rename kept backup root"
  from backup_path_sibling [of env fs] obtain rest where
    backup_eq: "backup = root @ CHR ''_'' # rest"
    by (auto simp: backup_def root_def)
  have free: "\<not> path_exists fs backup"
    by (simp add: backup_def backup_path_free)
  have sib: "\<forall>x. under backup x \<longrightarrow> \<not> under root x"
    using sibling_not_under [of "CHR ''_''" root rest] by (simp add: backup_eq)
  then have sib': "\<forall>x. under root x \<longrightarrow> \<not> under backup x"
    by blast
  have ne: "root \<noteq> backup" "backup \<noteq> root" "backup \<noteq> []"
    by (simp_all add: backup_eq)
  have not_into: "\<not> under root backup" "\<not> under backup root"
    using sib under_refl [of backup] root_not_under_sibling [of root "CHR ''_''" rest]
    by (auto simp: backup_eq)
  have clear: "\<forall>(q, n) \<in> set fs. \<not> under backup q"
    using nothing_under_missing [OF wf free ne(3)] by auto
  have root_exists: "path_exists fs root"
    using root_dir by (simp add: root_def isdir_def path_exists_def)
  have no_backup_dir: "\<not> isdir fs backup"
    using free by (simp add: isdir_def path_exists_def)

  have move1: "move fs root backup = Inr moved"
    using ne(1) no_backup_dir root_exists not_into(1) free
    by (simp add: move_def moved_def)

  have moved_clear: "\<forall>(q, n) \<in> set moved. \<not> under root q"
    using rename_not_under_src [OF sib] by (auto simp: moved_def)
  have moved_root: "map_of moved root = None"
  proof (rule ccontr)
    assume "map_of moved root \<noteq> None"
    then obtain n where "(root, n) \<in> set moved"
      by (auto dest: map_of_SomeD)
    with moved_clear under_refl [of root] show False by auto
  qed
  have moved_backup: "map_of moved backup = Some Dir"
    using map_of_rename_dst [OF clear, of root] root_dir
    by (simp add: moved_def root_def isdir_def)
  have zip_entry: "(temp_zip_path, File bytes) \<in> set fs"
    using zip by (rule map_of_SomeD)
  with clear have "\<not> under backup temp_zip_path" by auto
  with zip_out have moved_zip: "map_of moved temp_zip_path = Some (File bytes)"
    using map_of_rename_other [of root temp_zip_path backup fs] zip
    by (simp add: moved_def root_def)

  have tried: "try_extract env moved temp_zip_path target backup = Inl (e, partial)"
    by (simp add: try_extract_def moved_zip fail partial_def)

  have spare': "writes_spare root backup target written"
    using spare by (simp add: root_def backup_def target_def)
  note off_backup = writes_spare_backup [OF spare']
  have "list_all (\<lambda>(member, n). join target member \<noteq> backup) written"
    using off_backup under_refl [of backup] by (auto simp: list_all_iff)
  then have partial_backup: "map_of partial backup = Some Dir"
    using extract_members_lookup_gen [of target backup written moved] moved_backup
    by (simp add: partial_def)
  have partial_under_backup:
    "filter (\<lambda>(q, n). under backup q) partial = filter (\<lambda>(q, n). under backup q) moved"
    unfolding partial_def by (rule extract_members_filter_gen [OF off_backup])

  have kept_clear: "\<forall>(q, n) \<in> set kept. \<not> under root q"
    by (auto simp: kept_def)
  have kept_root: "map_of kept root = None"
    by (simp add: kept_def map_of_filter_key under_refl)
  have kept_backup: "map_of kept backup = Some Dir"
    using partial_backup not_into(1) by (simp add: kept_def map_of_filter_key)

  have first_step:
    "(if path_exists partial root then rmtree partial root else Inr partial) = Inr kept"
  proof (cases "list_ex (\<lambda>(member, n). under root (join target member)) written")
    case True
    from writes_spare_root [OF spare' True]
    have "isdir partial root"
      unfolding partial_def
      using extract_members_root_dir [of target root written moved] writes_spare_dir [OF spare']
      by simp
    then show ?thesis
      by (simp add: rmtree_def isdir_def path_exists_def kept_def)
  next
    case False
    then have none: "list_all (\<lambda>(member, n). \<not> under root (join target member)) written"
      by (auto simp: list_all_iff list_ex_iff)
    then have "list_all (\<lambda>(member, n). join target member \<noteq> root) written"
      using under_refl [of root] by (auto simp: list_all_iff)
    then have "map_of partial root = None"
      using extract_members_lookup_gen [of target root written moved] moved_root
      by (simp add: partial_def)
    then have no_root: "\<not> path_exists partial root"
      by (simp add: path_exists_def)
    have "filter (\<lambda>(q, n). under root q) partial = filter (\<lambda>(q, n). under root q) moved"
      unfolding partial_def by (rule extract_members_filter_gen [OF none])
    also have "\<dots> = []"
      using moved_clear by (auto simp: filter_empty_conv)
    finally have "\<forall>(q, n) \<in> set partial. \<not> under root q"
      by (auto simp: filter_empty_conv)
    then have "kept = partial"
      unfolding kept_def by (intro filter_all) auto
    with no_root show ?thesis by simp
  qed
  have rm: "rmtree partial root = Inr kept" if "path_exists partial root"
    using first_step that by simp

  have move2: "move kept backup root = Inr final"
  proof -
    have "\<not> isdir kept root" "\<not> path_exists kept root"
      using kept_root by (simp_all add: isdir_def path_exists_def)
    moreover have "path_exists kept backup"
      using kept_backup by (simp add: path_exists_def)
    ultimately show ?thesis
      using ne(2) not_into(2) by (simp add: move_def final_def)
  qed
  have rb: "rollback partial root backup = Inr final"
    using first_step move2 by (simp add: rollback_def)
  have whole: "replace_installation env fs temp_zip_path = Inr final"
    using move1 tried rb caught
    by (simp add: replace_installation_def root_def [symmetric] backup_def [symmetric]
        target_def [symmetric])

  have final_clear: "\<forall>(q, n) \<in> set final. \<not> under backup q"
    using rename_not_under_src [OF sib'] by (auto simp: final_def)
  then have final_backup: "filter (\<lambda>(q, n). under backup q) final = []"
    by (auto simp: filter_empty_conv)
  have no_backup: "\<not> path_exists final backup"
  proof
    assume "path_exists final backup"
    then obtain n where "(backup, n) \<in> set final"
      by (auto simp: path_exists_def dest: map_of_SomeD)
    with final_clear under_refl [of backup] show False by auto
  qed

  have "filter (\<lambda>(q, n). under backup q) kept = filter (\<lambda>(q, n). under backup q) partial"
    unfolding kept_def using sib by (induction partial) auto
  also have "\<dots> = filter (\<lambda>(q, n). under backup q) moved"
    by (rule partial_under_backup)
  also have "\<dots> = map (\<lambda>(q, n). (backup @ drop (length root) q, n))
                      (filter (\<lambda>(q, n). under root q) fs)"
    unfolding moved_def by (rule filter_under_rename [OF clear sib])
  finally have kept_under_backup:
    "filter (\<lambda>(q, n). under backup q) kept =
       map (\<lambda>(q, n). (backup @ drop (length root) q, n)) (filter (\<lambda>(q, n). under root q) fs)" .
  have "filter (\<lambda>(q, n). under root q) final =
        map (\<lambda>(q, n). (root @ drop (length backup) q, n)) (filter (\<lambda>(q, n). under backup q) kept)"
    unfolding final_def by (rule filter_under_rename [OF kept_clear sib'])
  also have "\<dots> = filter (\<lambda>(q, n). under root q) fs"
    unfolding kept_under_backup by (rule rename_there_and_back) auto
  finally have contents:
    "filter (\<lambda>(q, n). under root q) final = filter (\<lambda>(q, n). under root q) fs" .

  have "move fs root backup = Inr moved \<and>
         try_extract env moved temp_zip_path target backup = Inl (e, partial) \<and>
         (path_exists partial root \<longrightarrow> rmtree partial root = Inr kept) \<and>
         rollback partial root backup = Inr final \<and>
         replace_installation env fs temp_zip_path = Inr final \<and>
         \<not> path_exists final backup \<and>
         filter (\<lambda>(q, n). under backup q) final = [] \<and>
         filter (\<lambda>(q, n). under root q) final = filter (\<lambda>(q, n). under root q) fs"
    using move1 tried rm rb whole no_backup final_backup contents by blast
  then show ?thesis
    unfolding Let_def root_def backup_def moved_def target_def partial_def kept_def final_def .
qed

text \<open>
  Claim C1, as amended. Let the installation directory exist in a well-formed file
  system and the downloaded archive lie outside of it. Let the extraction raise, after
  the backup move, an exception that \<open>except Exception\<close> catches, having written
  nothing at or below the backup path and no regular file at the installation path.
  Then the handler ends normally, and on its exit: a partially written installation
  directory has been removed with everything in it, the backup has been moved back to
  the installation path, nothing exists at or below the backup path, and the entries at
  and below the installation path are exactly those from before the update.
\<close>

theorem rollback_restores:
  assumes root_dir: "isdir fs (blendluxcore_dir env)"
    and wf: "parents_exist fs"
    and zip: "map_of fs temp_zip_path = Some (File bytes)"
    and zip_out: "\<not> under (blendluxcore_dir env) temp_zip_path"
    and fail: "unzip env bytes = ExtractFailed e written"
    and caught: "is_Exception e"
    and spare: "writes_spare (blendluxcore_dir env) (backup_path env fs) (addon_dir env) written"
  shows
    "(let root = blendluxcore_dir env;
          backup = backup_path env fs;
          moved = rename fs root backup;
          partial = extract_members moved (addon_dir env) written;
          kept = filter (\<lambda>(q, n). \<not> under root q) partial;
          final = rename kept backup root
      in move fs root backup = Inr moved \<and>
         try_extract env moved temp_zip_path (addon_dir env) backup = Inl (e, partial) \<and>
         (path_exists partial root \<longrightarrow> rmtree partial root = Inr kept) \<and>
         rollback partial root backup = Inr final \<and>
         replace_installation env fs temp_zip_path = Inr final \<and>
         \<not> path_exists final backup \<and>
         filter (\<lambda>(q, n). under backup q) final = [] \<and>
         filter (\<lambda>(q, n). under root q) final = filter (\<lambda>(q, n). under root q) fs)"
  using assms by (rule rollback_general)

theorem rollback_restores_witness:
  "replace_installation example_execute_env example_fs_downloaded ''/tmp/tmpq1w2e3/default.zip''
     = Inr example_fs_downloaded \<and>
   \<not> path_exists example_fs_downloaded ''/home/u/addons/BlendLuxCore_backupb'' \<and>
   filter (\<lambda>(q, n). under ''/home/u/addons/BlendLuxCore'' q) example_fs_downloaded =
     [(''/home/u/addons/BlendLuxCore'', Dir),
      (''/home/u/addons/BlendLuxCore/__init__.py'', File ''old init''),
      (''/home/u/addons/BlendLuxCore/operators'', Dir),
      (''/home/u/addons/BlendLuxCore/operators/update.py'', File ''old update'')]"
proof -
  let ?written = "[(''BlendLuxCore'', Dir), (''BlendLuxCore/__init__.py'', File ''new init'')]"
  let ?final = "rename (filter (\<lambda>(q, n). \<not> under ''/home/u/addons/BlendLuxCore'' q)
      (extract_members
        (rename example_fs_downloaded ''/home/u/addons/BlendLuxCore''
           ''/home/u/addons/BlendLuxCore_backupb'')
        ''/home/u/addons'' ?written))
      ''/home/u/addons/BlendLuxCore_backupb'' ''/home/u/addons/BlendLuxCore''"
  have 1: "isdir example_fs_downloaded (blendluxcore_dir example_execute_env)"
    by (simp add: example_dirs isdir_def example_fs_downloaded_def example_fs_def)
  have 2: "parents_exist example_fs_downloaded"
    by code_simp
  have 3: "map_of example_fs_downloaded ''/tmp/tmpq1w2e3/default.zip'' = Some (File ''PK broken'')"
    by (simp add: example_fs_downloaded_def example_fs_def)
  have 4: "\<not> under (blendluxcore_dir example_execute_env) ''/tmp/tmpq1w2e3/default.zip''"
    by (simp add: example_dirs under_def)
  have 5: "unzip example_execute_env ''PK broken'' = ExtractFailed BadZipFile ?written"
    by (simp add: example_execute_env_def)
  have 6: "is_Exception BadZipFile"
    by simp
  have 7: "writes_spare (blendluxcore_dir example_execute_env)
      (backup_path example_execute_env example_fs_downloaded) (addon_dir example_execute_env) ?written"
    by (simp add: example_dirs example_backup_path writes_spare_def join_def under_def)
  have final: "?final = example_fs_downloaded"
    by code_simp
  have contents: "filter (\<lambda>(q, n). under ''/home/u/addons/BlendLuxCore'' q) example_fs_downloaded =
     [(''/home/u/addons/BlendLuxCore'', Dir),
      (''/home/u/addons/BlendLuxCore/__init__.py'', File ''old init''),
      (''/home/u/addons/BlendLuxCore/operators'', Dir),
      (''/home/u/addons/BlendLuxCore/operators/update.py'', File ''old update'')]"
    by code_simp
  from rollback_restores [OF 1 2 3 4 5 6 7]
  have "replace_installation example_execute_env example_fs_downloaded ''/tmp/tmpq1w2e3/default.zip''
      = Inr ?final"
    and "\<not> path_exists ?final ''/home/u/addons/BlendLuxCore_backupb''"
    by (simp_all add: Let_def example_dirs example_backup_path)
  then show ?thesis
    unfolding final using contents by simp
qed

text \<open>
  The claim as stated fails in three ways. An archive that puts a regular file in the
  place of the installation directory makes \<open>rmtree\<close> raise inside the handler: the
  backup stays at the backup path and the old installation is not restored. An archive
  that writes into the backup directory has its file moved into the restored
  installation, whose contents are then not those from before the update. And an
  extraction that ends with \<open>KeyboardInterrupt\<close> is not handled at all: the partial
  installation and the backup both stay on disk.
\<close>

theorem rollback_not_always:
  "(case replace_installation example_execute_env_file example_fs_downloaded
           ''/tmp/tmpq1w2e3/default.zip'' of
      Inl (e, fs') \<Rightarrow>
        e = NotADirectoryError ''/home/u/addons/BlendLuxCore'' \<and>
        path_exists fs' ''/home/u/addons/BlendLuxCore_backupb'' \<and>
        map_of fs' ''/home/u/addons/BlendLuxCore'' = Some (File ''stub'')
    | Inr fs' \<Rightarrow> False) \<and>
   (case replace_installation example_execute_env_stray example_fs_downloaded
           ''/tmp/tmpq1w2e3/default.zip'' of
      Inl (e, fs') \<Rightarrow> False
    | Inr fs' \<Rightarrow>
        map_of fs' ''/home/u/addons/BlendLuxCore/stray.py'' = Some (File ''stray'') \<and>
        map_of example_fs_downloaded ''/home/u/addons/BlendLuxCore/stray.py'' = None) \<and>
   (case replace_installation example_execute_env_interrupt example_fs_downloaded
           ''/tmp/tmpq1w2e3/default.zip'' of
      Inl (e, fs') \<Rightarrow>
        e = KeyboardInterrupt \<and>
        path_exists fs' ''/home/u/addons/BlendLuxCore_backupb'' \<and>
        map_of fs' ''/home/u/addons/BlendLuxCore/__init__.py'' = Some (File ''new init'')
    | Inr fs' \<Rightarrow> False)"
  by code_simp

subsection \<open>The errors of invoke\<close>

text \<open>
  The three failures of \<open>invoke\<close> are each reported to the user and cancel the call,
  leaving the dictionary empty.
\<close>

lemma invoke_connection_error:
  "requests_get env = ConnectionError \<Longrightarrow>
   invoke env old = \<lparr>reports = [(''ERROR'', ''Connection error'')], status = CANCELLED, state = []\<rparr>"
  by (simp add: invoke_def)

lemma invoke_response_not_ok:
  "requests_get env = Response False body \<Longrightarrow>
   invoke env old = \<lparr>reports = [(''ERROR'', ''Response not ok'')], status = CANCELLED, state = []\<rparr>"
  by (simp add: invoke_def)

lemma invoke_unsupported_system:
  "requests_get env = Response True (Some feed) \<Longrightarrow>
   platform_system env \<noteq> ''Linux'' \<Longrightarrow> platform_system env \<noteq> ''Windows'' \<Longrightarrow>
   invoke env old =
     \<lparr>reports = [(''ERROR'', ''Unsupported system: '' @ platform_system env)],
      status = CANCELLED, state = []\<rparr>"
  by (simp add: invoke_def system_mapping_def)

subsection \<open>The outcome after a failed extraction\<close>

text \<open>
  After the handler has restored the installation, \<open>execute\<close> goes on to its last
  lines as it does after a successful extraction.
\<close>

lemma extraction_failure_finishes:
  assumes body: "urlopen env (download_url requested_release) = Opened (Body bytes)"
    and zip: "temp_zip_path = join (temp_dir_path env) ''default.zip''"
    and downloaded: "fs' = AList.update temp_zip_path (File bytes) fs"
    and root_dir: "isdir fs' (blendluxcore_dir env)"
    and wf: "parents_exist fs'"
    and zip_out: "\<not> under (blendluxcore_dir env) temp_zip_path"
    and fail: "unzip env bytes = ExtractFailed e written"
    and caught: "is_Exception e"
    and below: "writes_below (blendluxcore_dir env) (addon_dir env) written"
  shows "download_and_install env requested_release fs =
           \<lparr>reports = [(''ERROR'', ''Restart Blender!'')], status = FINISHED, state = fs'\<rparr>"
proof -
  have "map_of fs' temp_zip_path = Some (File bytes)"
    by (simp add: downloaded update_conv')
  from rollback_whole_fs [OF root_dir wf this zip_out fail caught below]
  have "replace_installation env fs' temp_zip_path = Inr fs'"
    by (simp add: Let_def)
  with body show ?thesis
    by (simp add: download_and_install_def zip [symmetric] downloaded [symmetric])
qed

text \<open>
  Claim C4 (the part about a failed extraction does not hold of the code). On the
  example, where the extraction raises \<open>BadZipFile\<close> and the old installation is
  restored, the only report is \<open>Restart Blender!\<close> and the result is \<open>FINISHED\<close>:
  the same report and result as with the archive that extracts without error and
  installs the new files. No report names the failure.
\<close>

theorem extraction_failure_reports_success:
  "execute example_execute_env example_bl_info example_catalog ''v2.2alpha0'' example_fs =
     \<lparr>reports = [(''ERROR'', ''Restart Blender!'')], status = FINISHED, state = example_fs\<rparr> \<and>
   reports (execute example_execute_env_ok example_bl_info example_catalog ''v2.2alpha0'' example_fs) =
     [(''ERROR'', ''Restart Blender!'')] \<and>
   status (execute example_execute_env_ok example_bl_info example_catalog ''v2.2alpha0'' example_fs) =
     FINISHED \<and>
   map_of (state (execute example_execute_env_ok example_bl_info example_catalog ''v2.2alpha0''
      example_fs)) ''/home/u/addons/BlendLuxCore/__init__.py'' = Some (File ''new init'')"
  by code_simp

end
